theory Spec2Isabelle
  imports Complex_Main "HOL-Library.List_Lexorder" "HOL-Library.Product_Lexorder"
begin

section \<open>Python strings\<close>

text \<open>
  A Python \<open>str\<close> is a sequence of Unicode code points. A code point is a natural number
  and a string is a list of them; \<open>py\<close> turns an ASCII literal into such a list.
\<close>

type_synonym pychar = nat
type_synonym pystr = "pychar list"

definition py :: "string \<Rightarrow> pystr" where
  "py s = map of_char s"

section \<open>Parsed JSON payloads and the environment\<close>

text \<open>
  What \<open>r.json()\<close> returns: \<open>None\<close>, a bool, a number, a string, a list or a dict whose keys
  are strings. A dict is the list of its items in iteration order; the keys of a parsed
  payload are distinct, and a lookup takes the first item of a key. Numbers are rationals:
  the arithmetic of the model is exact where Python rounds to a float.
\<close>

datatype json =
    JNull
  | JBool bool
  | JNum rat
  | JStr pystr
  | JList "json list"
  | JDict "(pystr \<times> json) list"

datatype py_error = AttributeError | TypeError | KeyError | ValueError | RequestException

text \<open>
  The outcome of \<open>SESSION.get(url, timeout=...)\<close>: the request raises, or it returns a
  response with a status code and a body that \<open>r.json()\<close> parses (\<open>Some\<close>) or raises on
  (\<open>None\<close>).
\<close>

datatype http_result = Raises | Response nat "json option"

text \<open>
  What the program takes from outside the repository, as a parameter of every function
  that uses it: the Unicode tables of the standard library
  (\<open>unicodedata.normalize('NFD', s)\<close>, \<open>unicodedata.category(c) == 'Mn'\<close>, \<open>str.lower\<close>,
  \<open>str.upper\<close>), \<open>repr\<close> of a parsed value, \<open>urllib.parse.quote\<close>, and the three remote
  services: the average-deck page and the card page of EDHREC, addressed by slug, and
  Scryfall's lookup of a card by its exact name.
\<close>

record pyenv =
  normalize_nfd :: "pystr \<Rightarrow> pystr"
  category_Mn :: "pychar \<Rightarrow> bool"
  str_lower :: "pystr \<Rightarrow> pystr"
  str_upper :: "pystr \<Rightarrow> pystr"
  py_repr :: "json \<Rightarrow> pystr"
  url_quote :: "pystr \<Rightarrow> pystr"
  average_deck_page :: "pystr \<Rightarrow> http_result"
  card_page :: "pystr \<Rightarrow> http_result"
  scryfall_named :: "pystr \<Rightarrow> http_result"

text \<open>
  An environment that is right on ASCII text (no decomposition, no combining mark,
  \<open>A..Z\<close> and \<open>a..z\<close> mapped onto each other) and in which every remote page is missing.
  The concrete examples run on it, with the pages they need put in.
\<close>

definition ascii_lower :: "pychar \<Rightarrow> pychar" where
  "ascii_lower c = (if 65 \<le> c \<and> c \<le> 90 then c + 32 else c)"

definition ascii_upper :: "pychar \<Rightarrow> pychar" where
  "ascii_upper c = (if 97 \<le> c \<and> c \<le> 122 then c - 32 else c)"

definition ascii_env :: pyenv where
  "ascii_env = \<lparr> normalize_nfd = (\<lambda>s. s), category_Mn = (\<lambda>c. False),
                 str_lower = map ascii_lower, str_upper = map ascii_upper,
                 py_repr = (\<lambda>x. []), url_quote = (\<lambda>s. s),
                 average_deck_page = (\<lambda>s. Response 404 None),
                 card_page = (\<lambda>s. Response 404 None),
                 scryfall_named = (\<lambda>s. Response 404 None) \<rparr>"

section \<open>String methods\<close>

text \<open>The one-character string of the apostrophe, U+0027.\<close>

definition apostrophe :: pystr where
  "apostrophe = [39]"

text \<open>
  \<open>s.replace(old, new)\<close>: the occurrences of \<open>old\<close> are replaced from left to right, without
  overlap; an empty \<open>old\<close> matches before every character and at the end.
\<close>

function replace :: "pystr \<Rightarrow> pystr \<Rightarrow> pystr \<Rightarrow> pystr" where
  "replace old new [] = (if old = [] then new else [])"
| "replace old new (c # cs) =
     (if old = [] then new @ c # replace old new cs
      else if take (length old) (c # cs) = old
        then new @ replace old new (drop (length old) (c # cs))
        else c # replace old new cs)"
  by pat_completeness auto
termination
  by (relation "measure (\<lambda>(old, new, s). length s)") (auto simp: neq_Nil_conv)

text \<open>
  \<open>re.sub(r"[^a-z0-9]+", "-", s)\<close> in general form: every maximal run of characters of the
  class \<open>P\<close> is replaced by \<open>rep\<close>.
\<close>

function sub_runs :: "(pychar \<Rightarrow> bool) \<Rightarrow> pystr \<Rightarrow> pystr \<Rightarrow> pystr" where
  "sub_runs P rep [] = []"
| "sub_runs P rep (c # cs) =
     (if P c then rep @ sub_runs P rep (dropWhile P cs) else c # sub_runs P rep cs)"
  by pat_completeness auto
termination
  by (relation "measure (\<lambda>(P, rep, s). length s)")
     (auto simp: length_dropWhile_le less_Suc_eq_le)

text \<open>\<open>s.strip(chars)\<close>: the characters of \<open>chars\<close> are removed at both ends.\<close>

definition strip :: "pystr \<Rightarrow> pystr \<Rightarrow> pystr" where
  "strip chars s =
     rev (dropWhile (\<lambda>c. c \<in> set chars) (rev (dropWhile (\<lambda>c. c \<in> set chars) s)))"

text \<open>
  \<open>str.isspace\<close> for one character, the separator class of \<open>s.split()\<close>: the code points
  CPython lists as white space.
\<close>

definition isspace :: "pychar \<Rightarrow> bool" where
  "isspace c \<longleftrightarrow>
     (9 \<le> c \<and> c \<le> 13) \<or> (28 \<le> c \<and> c \<le> 32) \<or> c = 133 \<or> c = 160 \<or> c = 5760 \<or>
     (8192 \<le> c \<and> c \<le> 8202) \<or> c = 8232 \<or> c = 8233 \<or> c = 8239 \<or> c = 8287 \<or> c = 12288"

text \<open>\<open>s.split()\<close>: the maximal runs of characters that are not white space.\<close>

function split_ws :: "pystr \<Rightarrow> pystr list" where
  "split_ws s =
     (case dropWhile isspace s of
        [] \<Rightarrow> []
      | c # cs \<Rightarrow> (c # takeWhile (\<lambda>x. \<not> isspace x) cs)
                 # split_ws (dropWhile (\<lambda>x. \<not> isspace x) cs))"
  by pat_completeness auto
termination
proof (relation "measure length", goal_cases)
  case 1
  show ?case by simp
next
  case (2 s c cs)
  have "length (dropWhile (\<lambda>x. \<not> isspace x) cs) \<le> length cs"
    by (rule length_dropWhile_le)
  moreover have "length (dropWhile isspace s) \<le> length s"
    by (rule length_dropWhile_le)
  ultimately show ?case using 2 by simp
qed

declare split_ws.simps [simp del]

text \<open>\<open>sep.join(words)\<close>.\<close>

fun join :: "pystr \<Rightarrow> pystr list \<Rightarrow> pystr" where
  "join sep [] = []"
| "join sep [w] = w"
| "join sep (w # v # ws) = w @ sep @ join sep (v # ws)"

section \<open>Name normalizer\<close>

text \<open>
  \<open>slug\<close> of \<open>complete_deck.py\<close> and \<open>find_best_commanders.py\<close> (the two bodies are the same):
  NFD, the combining marks dropped, lower case, the apostrophe (twice), the three code points
  U+00E2 U+20AC U+2122, the comma, the colon and the full stop removed, every run outside
  \<open>[a-z0-9]\<close> turned into one hyphen, the hyphens stripped at both ends.
\<close>

definition alnum :: "pychar \<Rightarrow> bool" where
  "alnum c \<longleftrightarrow> (97 \<le> c \<and> c \<le> 122) \<or> (48 \<le> c \<and> c \<le> 57)"

definition slug :: "pyenv \<Rightarrow> pystr \<Rightarrow> pystr" where
  "slug u s0 =
     (let s = normalize_nfd u s0;
          s = filter (\<lambda>c. \<not> category_Mn u c) s;
          s = str_lower u s;
          s = replace [226, 8364, 8482] [] (replace apostrophe [] (replace apostrophe [] s));
          s = replace (py ''.'') [] (replace (py '':'') [] (replace (py '','') [] s));
          s = sub_runs (\<lambda>c. \<not> alnum c) (py ''-'') s
      in strip (py ''-'') s)"

section \<open>Tag sanitizers\<close>

text \<open>\<open>sanitize_collection_name\<close> of \<open>add_collection_tags.py\<close>.\<close>

definition sanitize_collection_name :: "pystr \<Rightarrow> pystr" where
  "sanitize_collection_name collection =
     (let clean = replace (py '':'') [] (replace apostrophe [] (replace (py '','') [] collection));
          clean = replace (py ''-'') (py ''_'') (replace (py ''/'') (py ''_'') clean)
      in join (py ''_'') (split_ws clean))"

text \<open>\<open>sanitize_commander_name\<close> of \<open>find_best_commanders.py\<close>.\<close>

definition sanitize_commander_name :: "pystr \<Rightarrow> pystr" where
  "sanitize_commander_name commander =
     (let clean = replace (py '':'') [] (replace apostrophe [] (replace (py '','') [] commander));
          clean = replace (py ''-'') (py ''_'') (replace (py ''/'') (py ''_'') clean)
      in join (py ''_'') (split_ws clean))"

section \<open>Truth values, lookups and iteration\<close>

text \<open>Truth value of a Python object in \<open>if x\<close>, \<open>x and y\<close>, \<open>not x\<close>.\<close>

fun truthy :: "json \<Rightarrow> bool" where
  "truthy JNull = False"
| "truthy (JBool b) = b"
| "truthy (JNum r) = (r \<noteq> 0)"
| "truthy (JStr s) = (s \<noteq> [])"
| "truthy (JList l) = (l \<noteq> [])"
| "truthy (JDict d) = (d \<noteq> [])"

text \<open>\<open>d.get(key)\<close> and \<open>d.get(key, default)\<close> on a dict, \<open>key in d\<close>.\<close>

definition dict_get :: "(pystr \<times> json) list \<Rightarrow> pystr \<Rightarrow> json \<Rightarrow> json" where
  "dict_get d key dflt = (case map_of d key of Some v \<Rightarrow> v | None \<Rightarrow> dflt)"

definition has_key :: "(pystr \<times> 'a) list \<Rightarrow> pystr \<Rightarrow> bool" where
  "has_key d key \<longleftrightarrow> map_of d key \<noteq> None"

text \<open>
  \<open>x.get(key, default)\<close> on any object: only a dict has the method, every other parsed
  value raises AttributeError.
\<close>

fun py_get :: "json \<Rightarrow> pystr \<Rightarrow> json \<Rightarrow> py_error + json" where
  "py_get (JDict d) key dflt = Inr (dict_get d key dflt)"
| "py_get _ key dflt = Inl AttributeError"

text \<open>
  \<open>for x in obj\<close>: a list gives its elements, a dict its keys, a string its characters;
  \<open>None\<close>, a bool and a number are not iterable.
\<close>

fun py_iter :: "json \<Rightarrow> py_error + json list" where
  "py_iter (JList l) = Inr l"
| "py_iter (JDict d) = Inr (map (\<lambda>(k, v). JStr k) d)"
| "py_iter (JStr s) = Inr (map (\<lambda>c. JStr [c]) s)"
| "py_iter _ = Inl TypeError"

text \<open>
  A value as an operand of \<open>/\<close>, \<open><\<close> or \<open>>\<close> against a number: a number is itself, a bool
  is 0 or 1, anything else raises TypeError.
\<close>

fun num_of :: "json \<Rightarrow> rat option" where
  "num_of (JNum r) = Some r"
| "num_of (JBool b) = Some (if b then 1 else 0)"
| "num_of _ = None"


section \<open>Loops and dicts with a state\<close>

text \<open>
  \<open>for x in xs: body\<close> where the body updates a state and may raise: the first exception
  ends the loop.
\<close>

fun for_each :: "('a \<Rightarrow> 's \<Rightarrow> py_error + 's) \<Rightarrow> 'a list \<Rightarrow> 's \<Rightarrow> py_error + 's" where
  "for_each body [] st = Inr st"
| "for_each body (x # xs) st =
     (case body x st of Inl e \<Rightarrow> Inl e | Inr st' \<Rightarrow> for_each body xs st')"

text \<open>
  \<open>d[key] = value\<close> on a dict kept as the list of its items: the value of a key that is
  there is replaced in place, a new key goes to the end.
\<close>

fun dict_set :: "(pystr \<times> 'a) list \<Rightarrow> pystr \<Rightarrow> 'a \<Rightarrow> (pystr \<times> 'a) list" where
  "dict_set [] key v = [(key, v)]"
| "dict_set ((k, x) # rest) key v =
     (if k = key then (k, v) # rest else (k, x) # dict_set rest key v)"

section \<open>Schema-free extractors\<close>

text \<open>
  The shape the nested \<open>scan\<close> functions of \<open>extract_commanders_from_card_json\<close>,
  \<open>extract_synergy_cards\<close> and \<open>get_card_synergies\<close> share: at a dict, the function's own
  test and update (\<open>visit\<close>), then \<open>for v in o.values(): scan(v)\<close>; at a list,
  \<open>for e in o: scan(e)\<close>; nothing at a scalar. There is no depth limit.
\<close>

fun walk :: "((pystr \<times> json) list \<Rightarrow> 's \<Rightarrow> py_error + 's) \<Rightarrow> json \<Rightarrow> 's \<Rightarrow> py_error + 's"
  and walk_values ::
    "((pystr \<times> json) list \<Rightarrow> 's \<Rightarrow> py_error + 's) \<Rightarrow> (pystr \<times> json) list \<Rightarrow> 's \<Rightarrow> py_error + 's"
  and walk_items ::
    "((pystr \<times> json) list \<Rightarrow> 's \<Rightarrow> py_error + 's) \<Rightarrow> json list \<Rightarrow> 's \<Rightarrow> py_error + 's" where
  "walk visit (JDict d) st =
     (case visit d st of Inl e \<Rightarrow> Inl e | Inr st' \<Rightarrow> walk_values visit d st')"
| "walk visit (JList l) st = walk_items visit l st"
| "walk visit JNull st = Inr st"
| "walk visit (JBool b) st = Inr st"
| "walk visit (JNum r) st = Inr st"
| "walk visit (JStr s) st = Inr st"
| "walk_values visit [] st = Inr st"
| "walk_values visit (kv # rest) st =
     (case walk visit (snd kv) st of Inl e \<Rightarrow> Inl e | Inr st' \<Rightarrow> walk_values visit rest st')"
| "walk_items visit [] st = Inr st"
| "walk_items visit (e # rest) st =
     (case walk visit e st of Inl e \<Rightarrow> Inl e | Inr st' \<Rightarrow> walk_items visit rest st')"

subsection \<open>Colour identity of the commander page\<close>


subsection \<open>A card's own Scryfall link\<close>

text \<open>
  The nested \<open>scan\<close> of \<open>find_scryfall_for_card\<close> (\<open>find_best_commanders.py\<close>) and of
  \<open>find_scryfall_in_data\<close> (\<open>complete_deck.py\<close>); the two bodies are the same. The variable
  \<open>found\<close> of the enclosing function is threaded through. \<open>o["name"].lower()\<close> raises
  AttributeError when the name is truthy and not a string. There is no depth limit.
\<close>

fun scan_scryfall :: "pyenv \<Rightarrow> pystr \<Rightarrow> json \<Rightarrow> json \<Rightarrow> py_error + json"
  and scan_scryfall_values :: "pyenv \<Rightarrow> pystr \<Rightarrow> (pystr \<times> json) list \<Rightarrow> json \<Rightarrow> py_error + json"
  and scan_scryfall_items :: "pyenv \<Rightarrow> pystr \<Rightarrow> json list \<Rightarrow> json \<Rightarrow> py_error + json" where
  "scan_scryfall u target (JDict d) found =
     (if truthy found then Inr found
      else if truthy (dict_get d (py ''name'') JNull) then
        (case dict_get d (py ''name'') JNull of
           JStr n \<Rightarrow>
             (if str_lower u n = target \<and> has_key d (py ''scryfall_uri'')
              then Inr (dict_get d (py ''scryfall_uri'') JNull)
              else scan_scryfall_values u target d found)
         | _ \<Rightarrow> Inl AttributeError)
      else scan_scryfall_values u target d found)"
| "scan_scryfall u target (JList l) found =
     (if truthy found then Inr found else scan_scryfall_items u target l found)"
| "scan_scryfall u target JNull found = Inr found"
| "scan_scryfall u target (JBool b) found = Inr found"
| "scan_scryfall u target (JNum r) found = Inr found"
| "scan_scryfall u target (JStr s) found = Inr found"
| "scan_scryfall_values u target [] found = Inr found"
| "scan_scryfall_values u target (kv # rest) found =
     (case scan_scryfall u target (snd kv) found of
        Inl e \<Rightarrow> Inl e
      | Inr found' \<Rightarrow> scan_scryfall_values u target rest found')"
| "scan_scryfall_items u target [] found = Inr found"
| "scan_scryfall_items u target (e # rest) found =
     (case scan_scryfall u target e found of
        Inl e \<Rightarrow> Inl e
      | Inr found' \<Rightarrow> scan_scryfall_items u target rest found')"


text \<open>\<open>find_scryfall_in_data(data, card_name)\<close>: \<open>found\<close> starts as the empty string.\<close>

definition find_scryfall_in_data :: "pyenv \<Rightarrow> json \<Rightarrow> pystr \<Rightarrow> py_error + json" where
  "find_scryfall_in_data u data card_name =
     (if data = JNull then Inr (JStr [])
      else scan_scryfall u (str_lower u card_name) data (JStr []))"


subsection \<open>Commanders a card is played with\<close>





subsection \<open>Synergy cards of a card page\<close>


record synergy_card =
  sc_card :: json
  sc_synergy :: rat
  sc_with_card :: pystr






section \<open>Card-to-card synergies (\<open>complete_deck.py\<close>)\<close>

definition MIN_SYNERGY_SCORE :: rat where
  "MIN_SYNERGY_SCORE = 10 / 100"

record syn_entry =
  se_synergy :: rat
  se_scryfall :: json

text \<open>
  The body of \<open>for card in obj["cardviews"]\<close> in the \<open>scan\<close> of \<open>get_card_synergies\<close>. A later
  view of a name overwrites an earlier one.
\<close>

definition card_synergy_cardview ::
  "pyenv \<Rightarrow> json \<Rightarrow> (pystr \<times> syn_entry) list \<Rightarrow> py_error + (pystr \<times> syn_entry) list" where
  "card_synergy_cardview u cv synergies =
     (case py_get cv (py ''name'') JNull of
        Inl e \<Rightarrow> Inl e
      | Inr name \<Rightarrow>
          (case py_get cv (py ''synergy'') (JNum 0) of
             Inl e \<Rightarrow> Inl e
           | Inr synergy \<Rightarrow>
               (case py_get cv (py ''scryfall_uri'') (JStr []) of
                  Inl e \<Rightarrow> Inl e
                | Inr scryfall \<Rightarrow>
                    (if truthy name then
                       (case num_of synergy of
                          None \<Rightarrow> Inl TypeError
                        | Some sy \<Rightarrow>
                            (if sy > MIN_SYNERGY_SCORE then
                               (case name of
                                  JStr n \<Rightarrow>
                                    Inr (dict_set synergies (str_lower u n)
                                           \<lparr> se_synergy = sy, se_scryfall = scryfall \<rparr>)
                                | _ \<Rightarrow> Inl AttributeError)
                             else Inr synergies))
                     else Inr synergies))))"

definition visit_card_synergy ::
  "pyenv \<Rightarrow> (pystr \<times> json) list \<Rightarrow> (pystr \<times> syn_entry) list
     \<Rightarrow> py_error + (pystr \<times> syn_entry) list" where
  "visit_card_synergy u d synergies =
     (if has_key d (py ''cardviews'') then
        (case py_iter (dict_get d (py ''cardviews'') JNull) of
           Inl e \<Rightarrow> Inl e
         | Inr cards \<Rightarrow> for_each (card_synergy_cardview u) cards synergies)
      else Inr synergies)"

definition scan_card_synergy ::
  "pyenv \<Rightarrow> json \<Rightarrow> (pystr \<times> syn_entry) list \<Rightarrow> py_error + (pystr \<times> syn_entry) list" where
  "scan_card_synergy u = walk (visit_card_synergy u)"

text \<open>
  \<open>get_card_synergies(card_name)\<close>: anything but a 200 with a body that parses gives the empty
  dict; the two scans of the payload run outside the \<open>try\<close>.
\<close>

definition get_card_synergies :: "pyenv \<Rightarrow> pystr \<Rightarrow> py_error + (pystr \<times> syn_entry) list" where
  "get_card_synergies u card_name =
     (case card_page u (slug u card_name) of
        Raises \<Rightarrow> Inr []
      | Response status body \<Rightarrow>
          (if status \<noteq> 200 then Inr []
           else case body of
                  None \<Rightarrow> Inr []
                | Some data \<Rightarrow>
                    (case find_scryfall_in_data u data card_name of
                       Inl e \<Rightarrow> Inl e
                     | Inr target_scryfall \<Rightarrow> scan_card_synergy u data [])))"

text \<open>
  The accumulation of step 2 of \<open>analyze_and_complete_deck\<close>: \<open>all_synergies\<close> is a
  \<open>defaultdict\<close> whose missing entries read as score \<open>0.0\<close> and link \<open>""\<close>.
\<close>

record syn_total =
  st_score :: rat
  st_scryfall :: json

definition syn_default :: syn_total where
  "syn_default = \<lparr> st_score = 0, st_scryfall = JStr [] \<rparr>"

fun add_synergies ::
  "(pystr \<times> syn_entry) list \<Rightarrow> (pystr \<times> syn_total) list \<Rightarrow> (pystr \<times> syn_total) list" where
  "add_synergies [] all_synergies = all_synergies"
| "add_synergies ((synergy_card, data) # rest) all_synergies =
     (let cur = (case map_of all_synergies synergy_card of Some t \<Rightarrow> t | None \<Rightarrow> syn_default);
          cur = cur\<lparr> st_score := st_score cur + se_synergy data \<rparr>;
          cur = (if truthy (se_scryfall data) \<and> \<not> truthy (st_scryfall cur)
                 then cur\<lparr> st_scryfall := se_scryfall data \<rparr> else cur)
      in add_synergies rest (dict_set all_synergies synergy_card cur))"

fun accumulate_synergies ::
  "pyenv \<Rightarrow> pystr list \<Rightarrow> (pystr \<times> syn_total) list \<Rightarrow> py_error + (pystr \<times> syn_total) list" where
  "accumulate_synergies u [] all_synergies = Inr all_synergies"
| "accumulate_synergies u (cv # rest) all_synergies =
     (case get_card_synergies u cv of
        Inl e \<Rightarrow> Inl e
      | Inr synergies \<Rightarrow> accumulate_synergies u rest (add_synergies synergies all_synergies))"

text \<open>The seeds: \<open>current_cards[:20]\<close>, the lower-cased names of the first 20 cards of the deck.\<close>

definition seed_cards :: "pyenv \<Rightarrow> pystr list \<Rightarrow> pystr list" where
  "seed_cards u cards = take 20 (map (str_lower u) cards)"

definition deck_synergies :: "pyenv \<Rightarrow> pystr list \<Rightarrow> py_error + (pystr \<times> syn_total) list" where
  "deck_synergies u cards = accumulate_synergies u (seed_cards u cards) []"

section \<open>Average and budget deck (\<open>complete_deck.py\<close>)\<close>

record card_info =
  ci_name :: pystr
  ci_inclusion :: rat
  ci_num_decks :: rat
  ci_is_budget :: bool
  ci_synergy :: rat
  ci_price :: json
  ci_scryfall :: json







section \<open>Colour legality (\<open>complete_deck.py\<close>)\<close>





section \<open>Inventory\<close>

record inv_row =
  row_name :: pystr
  row_quantity :: int
  row_source :: pystr

record inv_entry =
  inv_name :: pystr
  inv_quantity :: int
  inv_collections :: "pystr list"

text \<open>
  \<open>load_inventory\<close> of \<open>complete_deck.py\<close>, on the rows of the CSV file: the body of the loop
  and the loop. The source label of every row is appended.
\<close>

definition load_inventory_row ::
  "pyenv \<Rightarrow> (pystr \<times> inv_entry) list \<Rightarrow> inv_row \<Rightarrow> (pystr \<times> inv_entry) list" where
  "load_inventory_row u inv_map row =
     (let name_lower = str_lower u (row_name row);
          entry = (case map_of inv_map name_lower of
                     Some e \<Rightarrow> e
                   | None \<Rightarrow> \<lparr> inv_name = row_name row, inv_quantity = 0, inv_collections = [] \<rparr>);
          entry = entry\<lparr> inv_quantity := inv_quantity entry + row_quantity row \<rparr>;
          entry = entry\<lparr> inv_collections := inv_collections entry @ [row_source row] \<rparr>
      in dict_set inv_map name_lower entry)"

definition load_inventory :: "pyenv \<Rightarrow> inv_row list \<Rightarrow> (pystr \<times> inv_entry) list" where
  "load_inventory u rows = foldl (load_inventory_row u) [] rows"

text \<open>
  \<open>load_inventory\<close> of \<open>add_collection_tags.py\<close>: a label is appended only when the card
  does not have it yet.
\<close>

definition load_collections_row ::
  "pyenv \<Rightarrow> (pystr \<times> pystr list) list \<Rightarrow> inv_row \<Rightarrow> (pystr \<times> pystr list) list" where
  "load_collections_row u card_collections row =
     (let name_lower = str_lower u (row_name row);
          collection = row_source row;
          cur = (case map_of card_collections name_lower of Some c \<Rightarrow> c | None \<Rightarrow> [])
      in dict_set card_collections name_lower
           (if collection \<notin> set cur then cur @ [collection] else cur))"

definition load_inventory_collections :: "pyenv \<Rightarrow> inv_row list \<Rightarrow> (pystr \<times> pystr list) list" where
  "load_inventory_collections u rows = foldl (load_collections_row u) [] rows"

section \<open>Deck completion (\<open>complete_deck.py\<close>)\<close>









datatype candidate = FromEdhrec pystr card_info | FromSynergy pystr syn_total










section \<open>Ordering of the merged card list (\<open>find_best_commanders.py\<close>)\<close>

record flat_row =
  fr_commander :: pystr
  fr_card :: pystr
  fr_percent :: "rat option"
  fr_scryfall :: json
  fr_source :: pystr
  fr_collections :: pystr

text \<open>
  \<open>get_sort_priority(row)\<close>, nested in \<open>export_with_formatting\<close>; a percent that is
  not there (\<open>pd.notna\<close> fails) counts as 0.
\<close>

definition get_sort_priority :: "flat_row \<Rightarrow> nat \<times> rat" where
  "get_sort_priority row =
     (let source = fr_source row;
          percent = (case fr_percent row of Some p \<Rightarrow> p | None \<Rightarrow> 0)
      in if source = py ''both'' then (1, - percent)
         else if source = py ''edhrec'' \<and> percent > 20 / 100 then (2, - percent)
         else if source = py ''average'' then (3, 0)
         else (4, - percent))"

text \<open>\<open>df2.groupby("commander").size()\<close>: the number of rows of a commander.\<close>

definition commander_card_count :: "flat_row list \<Rightarrow> pystr \<Rightarrow> nat" where
  "commander_card_count rows c = length (filter (\<lambda>r. fr_commander r = c) rows)"

text \<open>
  \<open>df2.sort_values(by=["commander_total", "commander", "sort_key"],
  ascending=[False, True, True])\<close>: the rows in the lexicographic order of the three columns,
  the first one descending. Strings compare by code points, tuples by components.
\<close>

definition row_key :: "flat_row list \<Rightarrow> flat_row \<Rightarrow> int \<times> pystr \<times> nat \<times> rat" where
  "row_key rows r =
     (- int (commander_card_count rows (fr_commander r)), fr_commander r, get_sort_priority r)"

definition sort_rows :: "flat_row list \<Rightarrow> flat_row list" where
  "sort_rows rows = sort_key (row_key rows) rows"

section \<open>Predicates and examples of the statements\<close>

text \<open>
  The alphabet of a slug, \<open>[a-z0-9-]\<close>, and two hyphens side by side somewhere in a string.
\<close>

definition hyphen :: pychar where
  "hyphen = 45"

definition slug_char :: "pychar \<Rightarrow> bool" where
  "slug_char c \<longleftrightarrow> alnum c \<or> c = hyphen"

fun has_double_hyphen :: "pystr \<Rightarrow> bool" where
  "has_double_hyphen (a # b # s) = ((a = hyphen \<and> b = hyphen) \<or> has_double_hyphen (b # s))"
| "has_double_hyphen _ = False"

text \<open>
  What the proof of idempotence needs of the Unicode tables, and what holds of the real
  ones: a string over \<open>[a-z0-9-]\<close> is its own NFD form and its own lower case, and none of
  its characters is a combining mark.
\<close>

definition ascii_faithful :: "pyenv \<Rightarrow> bool" where
  "ascii_faithful u \<longleftrightarrow>
     (\<forall>s. list_all slug_char s \<longrightarrow>
        normalize_nfd u s = s \<and> str_lower u s = s \<and> list_all (\<lambda>c. \<not> category_Mn u c) s)"

text \<open>
  The character-level part of the tag sanitizers: comma (44), apostrophe (39) and colon (58)
  dropped, slash (47) and hyphen (45) turned into the underscore (95).
\<close>

definition tag_clean :: "pystr \<Rightarrow> pystr" where
  "tag_clean s = map (\<lambda>c. if c = 47 \<or> c = 45 then 95 else c)
                   (filter (\<lambda>c. c \<noteq> 44 \<and> c \<noteq> 39 \<and> c \<noteq> 58) s)"


text \<open>The rows of the inventory examples.\<close>

definition sol_ring_rows :: "inv_row list" where
  "sol_ring_rows =
     [\<lparr> row_name = py ''Sol Ring'', row_quantity = 1, row_source = py ''SetA'' \<rparr>,
      \<lparr> row_name = py ''Sol Ring'', row_quantity = 2, row_source = py ''SetB'' \<rparr>]"

definition sol_ring_same_set :: "inv_row list" where
  "sol_ring_same_set =
     [\<lparr> row_name = py ''Sol Ring'', row_quantity = 1, row_source = py ''SetA'' \<rparr>,
      \<lparr> row_name = py ''Sol Ring'', row_quantity = 2, row_source = py ''SetA'' \<rparr>]"

text \<open>
  The dicts of a payload in the order the walks reach them: a dict before the dicts inside
  its values, the values and the elements of a list from first to last.
\<close>

fun dict_nodes :: "json \<Rightarrow> (pystr \<times> json) list list"
  and dict_nodes_values :: "(pystr \<times> json) list \<Rightarrow> (pystr \<times> json) list list"
  and dict_nodes_items :: "json list \<Rightarrow> (pystr \<times> json) list list" where
  "dict_nodes (JDict d) = d # dict_nodes_values d"
| "dict_nodes (JList l) = dict_nodes_items l"
| "dict_nodes JNull = []"
| "dict_nodes (JBool b) = []"
| "dict_nodes (JNum r) = []"
| "dict_nodes (JStr s) = []"
| "dict_nodes_values [] = []"
| "dict_nodes_values (kv # rest) = dict_nodes (snd kv) @ dict_nodes_values rest"
| "dict_nodes_items [] = []"
| "dict_nodes_items (e # rest) = dict_nodes e @ dict_nodes_items rest"















text \<open>
  The synergy a seed card reports with a candidate (0 when it reports none), and the total
  the accumulation holds for a candidate (0 when it has no entry).
\<close>

definition reported_synergy :: "pyenv \<Rightarrow> pystr \<Rightarrow> pystr \<Rightarrow> rat" where
  "reported_synergy u seed candidate =
     (case get_card_synergies u seed of
        Inr synergies \<Rightarrow>
          (case map_of synergies candidate of Some e \<Rightarrow> se_synergy e | None \<Rightarrow> 0)
      | Inl e \<Rightarrow> 0)"

definition synergy_total :: "(pystr \<times> syn_total) list \<Rightarrow> pystr \<Rightarrow> rat" where
  "synergy_total all_synergies candidate =
     (case map_of all_synergies candidate of Some t \<Rightarrow> st_score t | None \<Rightarrow> 0)"

text \<open>
  The environment of the synergy example: the card page of Sol Ring lists Mana Vault with
  synergy 0.5, every other page is missing. The deck has 20 Islands and then Sol Ring.
\<close>

definition sol_ring_page :: json where
  "sol_ring_page =
     JDict [(py ''cardviews'',
        JList [JDict [(py ''name'', JStr (py ''Mana Vault'')), (py ''synergy'', JNum (5 / 10))]])]"

definition sol_ring_env :: pyenv where
  "sol_ring_env =
     ascii_env\<lparr> card_page :=
       (\<lambda>s. if s = py ''sol-ring'' then Response 200 (Some sol_ring_page) else Response 404 None) \<rparr>"

definition islands_then_sol_ring :: "pystr list" where
  "islands_then_sol_ring = replicate 20 (py ''Island'') @ [py ''Sol Ring'']"

text \<open>
  A dict of synergies as \<open>get_card_synergies\<close> builds it: one item per key, every score
  above the minimum.
\<close>

definition synergy_dict_ok :: "(pystr \<times> syn_entry) list \<Rightarrow> bool" where
  "synergy_dict_ok synergies \<longleftrightarrow>
     distinct (map fst synergies) \<and> list_all (\<lambda>kv. se_synergy (snd kv) > 1 / 10) synergies"









text \<open>
  The tiers of the merged list in the words of the specification: 1 for source \<open>both\<close>,
  2 for source \<open>edhrec\<close> with a percent above 0.20, 3 for source \<open>average\<close>, 4 for
  everything else. A percent that is not there counts as 0.
\<close>

definition percent_or_zero :: "flat_row \<Rightarrow> rat" where
  "percent_or_zero r = (case fr_percent r of Some p \<Rightarrow> p | None \<Rightarrow> 0)"

definition merge_tier :: "flat_row \<Rightarrow> nat" where
  "merge_tier r =
     (if fr_source r = py ''both'' then 1
      else if fr_source r = py ''edhrec'' \<and> percent_or_zero r > 20 / 100 then 2
      else if fr_source r = py ''average'' then 3
      else 4)"

text \<open>The rows of the ordering example.\<close>

definition atraxa_average_row :: flat_row where
  "atraxa_average_row =
     \<lparr> fr_commander = py ''Atraxa'', fr_card = py ''Sol Ring'', fr_percent = None,
       fr_scryfall = JNull, fr_source = py ''average'', fr_collections = py ''SetA'' \<rparr>"

definition atraxa_both_row :: flat_row where
  "atraxa_both_row =
     \<lparr> fr_commander = py ''Atraxa'', fr_card = py ''Mana Crypt'', fr_percent = Some (25 / 100),
       fr_scryfall = JNull, fr_source = py ''both'', fr_collections = py ''SetB'' \<rparr>"

definition muldrotha_row :: flat_row where
  "muldrotha_row =
     \<lparr> fr_commander = py ''Muldrotha'', fr_card = py ''Sol Ring'', fr_percent = Some (50 / 100),
       fr_scryfall = JNull, fr_source = py ''edhrec'', fr_collections = py ''SetA'' \<rparr>"

text \<open>
  How \<open>export_with_formatting\<close> builds the list it sorts. First one row per card of each
  ranked commander, with the card's percent and the source \<open>edhrec\<close>. Then, for a card of
  the commander's average deck that is owned: the first row of that commander and card (the
  card compared in lower case) is marked \<open>both\<close>, or, when there is none, a row with no
  percent and the source \<open>average\<close> is appended. The cards of the average decks and their
  links come from the remote services.
\<close>

record stat_card =
  cs_name :: pystr
  cs_percent :: rat
  cs_scryfall :: json

definition edhrec_rows ::
  "pyenv \<Rightarrow> (pystr \<rightharpoonup> pystr) \<Rightarrow> (pystr \<times> stat_card list) list \<Rightarrow> flat_row list" where
  "edhrec_rows u inv_source_map df =
     concat (map (\<lambda>(commander, cards).
        map (\<lambda>c. \<lparr> fr_commander = commander, fr_card = cs_name c,
                    fr_percent = Some (cs_percent c), fr_scryfall = cs_scryfall c,
                    fr_source = py ''edhrec'',
                    fr_collections =
                      (case inv_source_map (str_lower u (cs_name c)) of
                         Some s \<Rightarrow> s | None \<Rightarrow> []) \<rparr>) cards) df)"

fun mark_first_both :: "(flat_row \<Rightarrow> bool) \<Rightarrow> flat_row list \<Rightarrow> flat_row list" where
  "mark_first_both already [] = []"
| "mark_first_both already (x # flat) =
     (if already x then x\<lparr> fr_source := py ''both'' \<rparr> # flat
      else x # mark_first_both already flat)"

definition add_average_card ::
  "pyenv \<Rightarrow> flat_row list \<Rightarrow> pystr \<Rightarrow> pystr \<Rightarrow> json \<Rightarrow> pystr \<Rightarrow> flat_row list" where
  "add_average_card u flat commander crd scry collections =
     (let lower = str_lower u crd;
          already = (\<lambda>x. fr_commander x = commander \<and> str_lower u (fr_card x) = lower)
      in if list_ex already flat then mark_first_both already flat
         else flat @ [\<lparr> fr_commander = commander, fr_card = crd, fr_percent = None,
                        fr_scryfall = scry, fr_source = py ''average'',
                        fr_collections = collections \<rparr>])"

inductive merged_rows ::
  "pyenv \<Rightarrow> (pystr \<rightharpoonup> pystr) \<Rightarrow> (pystr \<times> stat_card list) list \<Rightarrow> flat_row list \<Rightarrow> bool"
  for u inv_source_map df where
  edhrec: "merged_rows u inv_source_map df (edhrec_rows u inv_source_map df)"
| average: "merged_rows u inv_source_map df flat \<Longrightarrow>
     merged_rows u inv_source_map df (add_average_card u flat commander crd scry collections)"

text \<open>The ranked commanders of the ordering example.\<close>

definition example_commanders :: "(pystr \<times> stat_card list) list" where
  "example_commanders =
     [(py ''Atraxa'',
       [\<lparr> cs_name = py ''Mana Crypt'', cs_percent = 25 / 100, cs_scryfall = JNull \<rparr>]),
      (py ''Muldrotha'',
       [\<lparr> cs_name = py ''Sol Ring'', cs_percent = 50 / 100, cs_scryfall = JNull \<rparr>])]"

definition example_sources :: "pystr \<rightharpoonup> pystr" where
  "example_sources = [py ''mana crypt'' \<mapsto> py ''SetB'', py ''sol ring'' \<mapsto> py ''SetA'']"

section \<open>Properties\<close>


subsection \<open>Strings\<close>

lemma replace_absent: "old \<noteq> [] \<Longrightarrow> hd old \<notin> set s \<Longrightarrow> replace old new s = s"
proof (induction s)
  case Nil
  then show ?case by simp
next
  case (Cons a s)
  from Cons.prems have "take (length old) (a # s) \<noteq> old"
    by (cases old) auto
  with Cons show ?case by simp
qed

lemma not_alnum_hyphen: "\<not> alnum hyphen"
  by (simp add: alnum_def hyphen_def)

lemma py_hyphen: "py ''-'' = [hyphen]"
  by (simp add: py_def hyphen_def)

lemma has_double_hyphen_Cons:
  "has_double_hyphen (x # s) = ((x = hyphen \<and> s \<noteq> [] \<and> hd s = hyphen) \<or> has_double_hyphen s)"
  by (cases s) auto

lemma has_double_hyphen_append:
  "\<not> has_double_hyphen (a @ b) \<Longrightarrow> \<not> has_double_hyphen a \<and> \<not> has_double_hyphen b"
proof (induction a)
  case Nil
  then show ?case by simp
next
  case (Cons x a)
  then show ?case
    by (cases a) (auto simp: has_double_hyphen_Cons)
qed

lemma sub_runs_chars:
  "set (sub_runs (\<lambda>c. \<not> alnum c) [hyphen] s) \<subseteq> {c. slug_char c}"
  by (induction "\<lambda>c. \<not> alnum c" "[hyphen]" s rule: sub_runs.induct)
     (auto simp: slug_char_def)

lemma sub_runs_no_double:
  "\<not> has_double_hyphen (sub_runs (\<lambda>c. \<not> alnum c) [hyphen] s)"
proof (induction "\<lambda>c. \<not> alnum c" "[hyphen]" s rule: sub_runs.induct)
  case 1
  show ?case by simp
next
  case (2 c cs)
  show ?case
  proof (cases "alnum c")
    case True
    then have "c \<noteq> hyphen" using not_alnum_hyphen by auto
    with True 2 show ?thesis by (simp add: has_double_hyphen_Cons)
  next
    case False
    let ?r = "dropWhile (\<lambda>c. \<not> alnum c) cs"
    have ih: "\<not> has_double_hyphen (sub_runs (\<lambda>c. \<not> alnum c) [hyphen] ?r)"
      using 2(1) False by simp
    have "sub_runs (\<lambda>c. \<not> alnum c) [hyphen] ?r = [] \<or> hd (sub_runs (\<lambda>c. \<not> alnum c) [hyphen] ?r) \<noteq> hyphen"
    proof (cases ?r)
      case Nil
      then have "sub_runs (\<lambda>c. \<not> alnum c) [hyphen] ?r = sub_runs (\<lambda>c. \<not> alnum c) [hyphen] []"
        by (rule arg_cong)
      then show ?thesis by (simp only: sub_runs.simps simp_thms)
    next
      case (Cons d ds)
      then have "alnum d" using hd_dropWhile[of "\<lambda>c. \<not> alnum c" cs] by auto
      then show ?thesis using Cons not_alnum_hyphen by auto
    qed
    moreover have "sub_runs (\<lambda>c. \<not> alnum c) [hyphen] (c # cs)
        = hyphen # sub_runs (\<lambda>c. \<not> alnum c) [hyphen] ?r"
      using False by simp
    ultimately show ?thesis
      using ih by (simp only: has_double_hyphen_Cons) blast
  qed
qed

lemma strip_sublist: "\<exists>a b. s = a @ strip chars s @ b"
proof -
  let ?P = "\<lambda>c. c \<in> set chars"
  let ?m = "dropWhile ?P s"
  have 1: "s = takeWhile ?P s @ ?m" by simp
  have "rev ?m = takeWhile ?P (rev ?m) @ dropWhile ?P (rev ?m)" by simp
  then have "?m = rev (dropWhile ?P (rev ?m)) @ rev (takeWhile ?P (rev ?m))"
    by (metis rev_append rev_rev_ident)
  then have "?m = strip chars s @ rev (takeWhile ?P (rev ?m))"
    by (simp add: strip_def)
  with 1 have "s = takeWhile ?P s @ strip chars s @ rev (takeWhile ?P (rev ?m))" by simp
  then show ?thesis by blast
qed

lemma strip_hd: "strip chars s \<noteq> [] \<Longrightarrow> hd (strip chars s) \<notin> set chars"
proof -
  let ?P = "\<lambda>c. c \<in> set chars"
  let ?m = "dropWhile ?P s"
  assume ne: "strip chars s \<noteq> []"
  have sm: "strip chars s = rev (dropWhile ?P (rev ?m))" by (simp add: strip_def)
  have "rev ?m = takeWhile ?P (rev ?m) @ dropWhile ?P (rev ?m)" by simp
  then have "?m = rev (dropWhile ?P (rev ?m)) @ rev (takeWhile ?P (rev ?m))"
    by (metis rev_append rev_rev_ident)
  then have m: "?m = strip chars s @ rev (takeWhile ?P (rev ?m))" using sm by simp
  with ne have "?m \<noteq> []" by (metis Nil_is_append_conv)
  then have "\<not> ?P (hd ?m)" by (rule hd_dropWhile)
  moreover from m ne have "hd ?m = hd (strip chars s)" by (metis hd_append2)
  ultimately show ?thesis by simp
qed

lemma strip_last: "strip chars s \<noteq> [] \<Longrightarrow> last (strip chars s) \<notin> set chars"
proof -
  let ?P = "\<lambda>c. c \<in> set chars"
  let ?m = "dropWhile ?P s"
  assume ne: "strip chars s \<noteq> []"
  have sm: "strip chars s = rev (dropWhile ?P (rev ?m))" by (simp add: strip_def)
  with ne have "dropWhile ?P (rev ?m) \<noteq> []" by simp
  then have "\<not> ?P (hd (dropWhile ?P (rev ?m)))" by (rule hd_dropWhile)
  moreover have "last (strip chars s) = hd (dropWhile ?P (rev ?m))"
    using sm by (simp add: last_rev)
  ultimately show ?thesis by simp
qed

lemma dropWhile_id: "xs \<noteq> [] \<Longrightarrow> \<not> P (hd xs) \<Longrightarrow> dropWhile P xs = xs"
  by (cases xs) auto

lemma strip_id: "s = [] \<or> (hd s \<notin> set chars \<and> last s \<notin> set chars) \<Longrightarrow> strip chars s = s"
proof (cases s)
  case Nil
  then show ?thesis by (simp add: strip_def)
next
  case (Cons a t)
  assume "s = [] \<or> (hd s \<notin> set chars \<and> last s \<notin> set chars)"
  with Cons have h: "a \<notin> set chars" and l: "last s \<notin> set chars" by auto
  from h Cons have 1: "dropWhile (\<lambda>c. c \<in> set chars) s = s" by simp
  from Cons have "rev s \<noteq> []" by simp
  moreover have "hd (rev s) = last s" using Cons by (simp add: hd_rev)
  ultimately have "dropWhile (\<lambda>c. c \<in> set chars) (rev s) = rev s"
    using l by (intro dropWhile_id) simp_all
  with 1 show ?thesis by (simp add: strip_def)
qed

lemma sub_runs_id:
  "list_all slug_char s \<Longrightarrow> \<not> has_double_hyphen s \<Longrightarrow> s = [] \<or> last s \<noteq> hyphen \<Longrightarrow>
   sub_runs (\<lambda>c. \<not> alnum c) [hyphen] s = s"
proof (induction s)
  case Nil
  then show ?case by simp
next
  case (Cons c cs)
  have tl: "list_all slug_char cs" "\<not> has_double_hyphen cs"
    using Cons.prems by (auto simp: has_double_hyphen_Cons)
  show ?case
  proof (cases "alnum c")
    case True
    have "cs = [] \<or> last cs \<noteq> hyphen" using Cons.prems(3) by auto
    with Cons.IH tl True show ?thesis by simp
  next
    case False
    then have c: "c = hyphen" using Cons.prems(1) by (simp add: slug_char_def)
    with Cons.prems(3) have ne: "cs \<noteq> []" by auto
    then have l: "last cs \<noteq> hyphen" using Cons.prems(3) by auto
    from c ne Cons.prems(2) have "hd cs \<noteq> hyphen" by (auto simp: has_double_hyphen_Cons)
    moreover from ne tl(1) have "slug_char (hd cs)" by (cases cs) auto
    ultimately have "alnum (hd cs)" by (simp add: slug_char_def)
    with ne have "dropWhile (\<lambda>c. \<not> alnum c) cs = cs" by (cases cs) auto
    with Cons.IH tl l False c show ?thesis by simp
  qed
qed

lemma slug_shape:
  "list_all slug_char (slug u x) \<and> \<not> has_double_hyphen (slug u x) \<and>
   (slug u x = [] \<or> (hd (slug u x) \<noteq> hyphen \<and> last (slug u x) \<noteq> hyphen))"
proof -
  obtain t where y: "slug u x = strip [hyphen] (sub_runs (\<lambda>c. \<not> alnum c) [hyphen] t)"
    by (simp add: slug_def Let_def py_hyphen)
  let ?t = "sub_runs (\<lambda>c. \<not> alnum c) [hyphen] t"
  obtain a b where ab: "?t = a @ slug u x @ b"
    using strip_sublist[of ?t "[hyphen]"] y by auto
  have "set (slug u x) \<subseteq> set (a @ slug u x @ b)"
    by auto
  then have "set (slug u x) \<subseteq> set ?t"
    by (simp only: ab [symmetric])
  with sub_runs_chars[of t] have 1: "list_all slug_char (slug u x)"
    by (auto simp: list_all_iff)
  have "\<not> has_double_hyphen (a @ slug u x @ b)"
    using sub_runs_no_double[of t] ab by simp
  then have 2: "\<not> has_double_hyphen (slug u x)"
    using has_double_hyphen_append by blast
  have 3: "slug u x = [] \<or> (hd (slug u x) \<noteq> hyphen \<and> last (slug u x) \<noteq> hyphen)"
    using strip_hd[of "[hyphen]" ?t] strip_last[of "[hyphen]" ?t] y by auto
  from 1 2 3 show ?thesis by blast
qed

lemma slug_fixes_slugs:
  assumes u: "ascii_faithful u"
    and chars: "list_all slug_char y"
    and nd: "\<not> has_double_hyphen y"
    and ends: "y = [] \<or> (hd y \<noteq> hyphen \<and> last y \<noteq> hyphen)"
  shows "slug u y = y"
proof -
  from u chars have nfd: "normalize_nfd u y = y" and low: "str_lower u y = y"
    and mn: "list_all (\<lambda>c. \<not> category_Mn u c) y"
    by (auto simp: ascii_faithful_def)
  from mn have f: "filter (\<lambda>c. \<not> category_Mn u c) y = y"
    by (simp add: list_all_iff)
  have absent: "c \<notin> set y" if "\<not> slug_char c" for c
    using chars that by (auto simp: list_all_iff)
  have r1: "replace apostrophe [] y = y"
    by (rule replace_absent) (auto simp: apostrophe_def intro!: absent simp: slug_char_def alnum_def hyphen_def)
  have r2: "replace [226, 8364, 8482] [] y = y"
    by (rule replace_absent) (auto intro!: absent simp: slug_char_def alnum_def hyphen_def)
  have r3: "replace (py '','') [] y = y"
    by (rule replace_absent) (auto simp: py_def intro!: absent simp: slug_char_def alnum_def hyphen_def)
  have r4: "replace (py '':'') [] y = y"
    by (rule replace_absent) (auto simp: py_def intro!: absent simp: slug_char_def alnum_def hyphen_def)
  have r5: "replace (py ''.'') [] y = y"
    by (rule replace_absent) (auto simp: py_def intro!: absent simp: slug_char_def alnum_def hyphen_def)
  have sr: "sub_runs (\<lambda>c. \<not> alnum c) [hyphen] y = y"
    using chars nd ends by (intro sub_runs_id) auto
  have st: "strip [hyphen] y = y"
    using ends by (intro strip_id) auto
  show ?thesis
    by (simp add: slug_def Let_def nfd f low r1 r2 r3 r4 r5 py_hyphen sr st)
qed

text \<open>
  C7. For every string \<open>x\<close>, \<open>slug\<close> is idempotent (given Unicode tables that leave
  \<open>[a-z0-9-]\<close> text alone, as the real ones do), its result has only characters of
  \<open>[a-z0-9-]\<close>, no hyphen at either end, and no two hyphens side by side.
\<close>

theorem slug_idempotent_and_wellformed:
  "(ascii_faithful u \<longrightarrow> slug u (slug u x) = slug u x) \<and>
   list_all slug_char (slug u x) \<and>
   (slug u x \<noteq> [] \<longrightarrow> hd (slug u x) \<noteq> hyphen \<and> last (slug u x) \<noteq> hyphen) \<and>
   \<not> has_double_hyphen (slug u x)"
  using slug_shape[of u x] slug_fixes_slugs[of u "slug u x"] by blast

lemma ascii_faithful_ascii_env: "ascii_faithful ascii_env"
proof -
  have "map ascii_lower s = s" if "list_all slug_char s" for s
    using that by (induction s) (auto simp: slug_char_def alnum_def hyphen_def ascii_lower_def)
  then show ?thesis
    by (simp add: ascii_faithful_def ascii_env_def list_all_iff)
qed

theorem slug_idempotent_and_wellformed_witness:
  "ascii_faithful ascii_env \<and>
   slug ascii_env (py ''Atraxa, Praetors' Voice'') = py ''atraxa-praetors-voice'' \<and>
   slug ascii_env (py ''atraxa-praetors-voice'') = py ''atraxa-praetors-voice'' \<and>
   hd (py ''atraxa-praetors-voice'') \<noteq> hyphen \<and> last (py ''atraxa-praetors-voice'') \<noteq> hyphen \<and>
   \<not> has_double_hyphen (py ''atraxa-praetors-voice'')"
proof -
  have e: "slug ascii_env (py ''Atraxa, Praetors' Voice'') = py ''atraxa-praetors-voice''"
    by (simp add: slug_def py_def apostrophe_def ascii_env_def ascii_lower_def alnum_def strip_def)
  have ne: "py ''atraxa-praetors-voice'' \<noteq> []"
    by (simp add: py_def)
  show ?thesis
    using slug_idempotent_and_wellformed[of ascii_env "py ''Atraxa, Praetors' Voice''"]
      ascii_faithful_ascii_env ne
    by (simp only: e) simp
qed


subsection \<open>Tag sanitizers\<close>

lemma replace_char_del: "replace [c] [] s = filter (\<lambda>x. x \<noteq> c) s"
  by (induction s) auto

lemma replace_char_map: "replace [c] [d] s = map (\<lambda>x. if x = c then d else x) s"
  by (induction s) auto

lemma tag_clean_replace:
  "replace [45] [95] (replace [47] [95] (replace [58] [] (replace [39] [] (replace [44] [] s))))
     = tag_clean s"
  unfolding replace_char_del replace_char_map tag_clean_def
  by (induction s) auto

lemma sanitize_collection_name_clean:
  "sanitize_collection_name s = join [95] (split_ws (tag_clean s))"
  by (simp add: sanitize_collection_name_def py_def apostrophe_def Let_def tag_clean_replace)


lemma split_ws_space: "isspace c \<Longrightarrow> split_ws (c # s) = split_ws s"
proof -
  assume "isspace c"
  then have d: "dropWhile isspace (c # s) = dropWhile isspace s" by simp
  have "split_ws (c # s) =
      (case dropWhile isspace s of
        [] \<Rightarrow> []
      | c # cs \<Rightarrow> (c # takeWhile (\<lambda>x. \<not> isspace x) cs)
                 # split_ws (dropWhile (\<lambda>x. \<not> isspace x) cs))"
    using split_ws.simps[of "c # s"] unfolding d .
  also have "\<dots> = split_ws s" by (rule split_ws.simps[symmetric])
  finally show ?thesis .
qed

lemma split_ws_word:
  "\<not> isspace c \<Longrightarrow>
   split_ws (c # s) = (c # takeWhile (\<lambda>x. \<not> isspace x) s) # split_ws (dropWhile (\<lambda>x. \<not> isspace x) s)"
proof -
  assume "\<not> isspace c"
  then have d: "dropWhile isspace (c # s) = c # s" by simp
  show ?thesis using split_ws.simps[of "c # s"] unfolding d by (simp only: list.case)
qed

lemma split_ws_Nil: "split_ws [] = []"
  using split_ws.simps[of "[]"] by (simp only: dropWhile.simps list.case)

lemma split_ws_spaces: "list_all isspace ws \<Longrightarrow> split_ws (ws @ s) = split_ws s"
proof (induction ws)
  case Nil
  show ?case by simp
next
  case (Cons a ws)
  then have "isspace a" and "list_all isspace ws" by simp_all
  with Cons.IH show ?case by (simp only: append_Cons split_ws_space)
qed

lemma split_ws_all_space: "list_all isspace ws \<Longrightarrow> split_ws ws = []"
  using split_ws_spaces[of ws "[]"] by (simp only: append_Nil2 split_ws_Nil)

lemma split_ws_one_word:
  assumes ne: "w \<noteq> []" and w: "list_all (\<lambda>c. \<not> isspace c) w" and r: "r = [] \<or> isspace (hd r)"
  shows "split_ws (w @ r) = w # split_ws r"
proof -
  from ne obtain c cs where wc: "w = c # cs" by (cases w) auto
  with w have c: "\<not> isspace c" and cs: "\<forall>x\<in>set cs. \<not> isspace x" by (auto simp: list_all_iff)
  have t: "takeWhile (\<lambda>x. \<not> isspace x) (cs @ r) = cs"
    using cs r by (cases r) (auto simp: takeWhile_append2)
  have d: "dropWhile (\<lambda>x. \<not> isspace x) (cs @ r) = r"
    using cs r by (cases r) (auto simp: dropWhile_append2)
  show ?thesis
    unfolding wc using split_ws_word[OF c, of "cs @ r"] by (simp only: append_Cons t d)
qed

lemma concat_split_ws: "concat (split_ws s) = filter (\<lambda>c. \<not> isspace c) s"
proof (induction s rule: split_ws.induct)
  case (1 s)
  show ?case
  proof (cases "dropWhile isspace s")
    case Nil
    then have "\<forall>x\<in>set s. isspace x" by (simp add: dropWhile_eq_Nil_conv)
    then have "filter (\<lambda>c. \<not> isspace c) s = []" by (simp add: filter_empty_conv)
    moreover have "split_ws s = []"
      using split_ws.simps[of s] by (simp only: Nil list.case)
    ultimately show ?thesis by simp
  next
    case (Cons c cs)
    have c: "\<not> isspace c" using hd_dropWhile[of isspace s] Cons by auto
    have ih: "concat (split_ws (dropWhile (\<lambda>x. \<not> isspace x) cs))
               = filter (\<lambda>c. \<not> isspace c) (dropWhile (\<lambda>x. \<not> isspace x) cs)"
      using 1 Cons by blast
    have sp: "split_ws s = (c # takeWhile (\<lambda>x. \<not> isspace x) cs)
                 # split_ws (dropWhile (\<lambda>x. \<not> isspace x) cs)"
      using split_ws.simps[of s] by (simp only: Cons list.case)
    have f1: "filter (\<lambda>c. \<not> isspace c) (takeWhile isspace s) = []"
      by (auto simp: filter_empty_conv dest: set_takeWhileD)
    have "filter (\<lambda>c. \<not> isspace c) s
            = filter (\<lambda>c. \<not> isspace c) (takeWhile isspace s @ dropWhile isspace s)"
      by simp
    also have "\<dots> = filter (\<lambda>c. \<not> isspace c) (c # cs)"
      by (simp only: filter_append f1 Cons append_Nil)
    finally have f2: "filter (\<lambda>c. \<not> isspace c) s = c # filter (\<lambda>c. \<not> isspace c) cs"
      using c by simp
    have f3: "filter (\<lambda>c. \<not> isspace c) (takeWhile (\<lambda>x. \<not> isspace x) cs)
               = takeWhile (\<lambda>x. \<not> isspace x) cs"
      by (auto simp: filter_id_conv dest: set_takeWhileD)
    have "filter (\<lambda>c. \<not> isspace c) cs
            = filter (\<lambda>c. \<not> isspace c)
                (takeWhile (\<lambda>x. \<not> isspace x) cs @ dropWhile (\<lambda>x. \<not> isspace x) cs)"
      by simp
    also have "\<dots> = takeWhile (\<lambda>x. \<not> isspace x) cs
                      @ filter (\<lambda>c. \<not> isspace c) (dropWhile (\<lambda>x. \<not> isspace x) cs)"
      by (simp only: filter_append f3)
    finally have f4: "filter (\<lambda>c. \<not> isspace c) cs = takeWhile (\<lambda>x. \<not> isspace x) cs
                      @ filter (\<lambda>c. \<not> isspace c) (dropWhile (\<lambda>x. \<not> isspace x) cs)" .
    show ?thesis
      by (simp only: sp concat.simps ih f2 f4 append_Cons)
  qed
qed

lemma join_Cons: "join sep (w # ws) = (if ws = [] then w else w @ sep @ join sep ws)"
  by (cases ws) auto

lemma filter_join: "filter (\<lambda>c. c \<noteq> x) (join [x] ws) = filter (\<lambda>c. c \<noteq> x) (concat ws)"
  by (induction ws) (auto simp: join_Cons)

lemma set_join: "set (join sep ws) \<subseteq> set sep \<union> set (concat ws)"
  by (induction ws) (auto simp: join_Cons)

lemma takeWhile_append_stop:
  "r \<noteq> [] \<Longrightarrow> \<not> P (hd r) \<Longrightarrow> takeWhile P (cs @ r) = takeWhile P cs"
  by (induction cs) (auto simp: neq_Nil_conv)

lemma dropWhile_append_stop:
  "r \<noteq> [] \<Longrightarrow> \<not> P (hd r) \<Longrightarrow> dropWhile P (cs @ r) = dropWhile P cs @ r"
  by (induction cs) (auto simp: neq_Nil_conv)

lemma split_ws_append:
  assumes ws: "ws \<noteq> []" "list_all isspace ws"
  shows "split_ws (x @ ws @ y) = split_ws x @ split_ws y"
proof (induction x rule: split_ws.induct)
  case (1 x)
  have "ws @ y \<noteq> []"
    using ws by simp
  moreover have "isspace (hd (ws @ y))"
    using ws by (cases ws) simp_all
  ultimately have stop: "ws @ y \<noteq> []" "isspace (hd (ws @ y))" .
  have tk: "takeWhile (\<lambda>x. \<not> isspace x) (cs @ ws @ y) = takeWhile (\<lambda>x. \<not> isspace x) cs" for cs
    using stop by (intro takeWhile_append_stop) blast+
  have dr: "dropWhile (\<lambda>x. \<not> isspace x) (cs @ ws @ y) = dropWhile (\<lambda>x. \<not> isspace x) cs @ ws @ y" for cs
    using stop by (intro dropWhile_append_stop) blast+
  show ?case
  proof (cases "dropWhile isspace x")
    case Nil
    then have "list_all isspace x" by (simp add: dropWhile_eq_Nil_conv list_all_iff)
    then have "split_ws x = []" and "list_all isspace (x @ ws)"
      using ws by (simp_all add: split_ws_all_space)
    then show ?thesis using split_ws_spaces[of "x @ ws" y] by simp
  next
    case (Cons c cs)
    have c: "\<not> isspace c" using hd_dropWhile[of isspace x] Cons by auto
    have sp: "list_all isspace (takeWhile isspace x)"
      by (auto simp: list_all_iff dest: set_takeWhileD)
    have x: "x = takeWhile isspace x @ c # cs"
      using Cons takeWhile_dropWhile_id[of isspace x] by simp
    have ih: "split_ws (dropWhile (\<lambda>x. \<not> isspace x) cs @ ws @ y)
                = split_ws (dropWhile (\<lambda>x. \<not> isspace x) cs) @ split_ws y"
      using 1 Cons by blast
    have l: "split_ws (x @ ws @ y) = split_ws (c # cs @ ws @ y)"
      using split_ws_spaces[OF sp, of "c # cs @ ws @ y"] by (subst x) simp
    have r: "split_ws x = split_ws (c # cs)"
      using split_ws_spaces[OF sp, of "c # cs"] by (subst x) simp
    have "split_ws (c # cs @ ws @ y)
            = (c # takeWhile (\<lambda>x. \<not> isspace x) cs)
                # split_ws (dropWhile (\<lambda>x. \<not> isspace x) cs @ ws @ y)"
      using split_ws_word[OF c, of "cs @ ws @ y"]
      by (simp only: tk dr)
    also have "\<dots> = split_ws (c # cs) @ split_ws y"
      by (simp only: ih split_ws_word[OF c, of cs] append_Cons)
    finally show ?thesis by (simp only: l r)
  qed
qed

lemma split_ws_trailing: "list_all isspace ws \<Longrightarrow> split_ws (s @ ws) = split_ws s"
proof (cases "ws = []")
  case True
  then show ?thesis by simp
next
  case False
  assume "list_all isspace ws"
  with False show ?thesis
    using split_ws_append[of ws s "[]"] by (simp add: split_ws_Nil)
qed

lemma join_append:
  "xs \<noteq> [] \<Longrightarrow> ys \<noteq> [] \<Longrightarrow> join sep (xs @ ys) = join sep xs @ sep @ join sep ys"
  by (induction xs) (auto simp: join_Cons)

lemma isspace_not_special: "isspace c \<Longrightarrow> c \<noteq> 44 \<and> c \<noteq> 39 \<and> c \<noteq> 58 \<and> c \<noteq> 47 \<and> c \<noteq> 45 \<and> c \<noteq> 95"
  by (auto simp: isspace_def)

lemma tag_clean_append: "tag_clean (a @ b) = tag_clean a @ tag_clean b"
  by (simp add: tag_clean_def)

lemma tag_clean_spaces: "list_all isspace ws \<Longrightarrow> tag_clean ws = ws"
  by (induction ws) (auto simp: tag_clean_def dest: isspace_not_special)

lemma sanitize_chars:
  "list_all (\<lambda>c. c \<notin> set (py '',:/-'') \<and> c \<notin> set apostrophe \<and> \<not> isspace c) (sanitize_collection_name s)"
proof -
  have "set (sanitize_collection_name s) \<subseteq> {95} \<union> {c \<in> set (tag_clean s). \<not> isspace c}"
    using set_join[of "[95]" "split_ws (tag_clean s)"]
    by (simp add: sanitize_collection_name_clean concat_split_ws)
  moreover have "\<not> isspace 95" by (simp add: isspace_def)
  moreover have "c \<notin> set (py '',:/-'') \<and> c \<notin> set apostrophe" if "c \<in> set (tag_clean s)" for c
    using that by (auto simp: tag_clean_def py_def apostrophe_def split: if_splits)
  ultimately have "c \<notin> set (py '',:/-'') \<and> c \<notin> set apostrophe \<and> \<not> isspace c"
    if "c \<in> set (sanitize_collection_name s)" for c
  proof -
    from that \<open>set (sanitize_collection_name s) \<subseteq> _\<close>
    have "c = 95 \<or> (c \<in> set (tag_clean s) \<and> \<not> isspace c)" by auto
    then show ?thesis
    proof
      assume "c = 95"
      then show ?thesis using \<open>\<not> isspace 95\<close> by (simp add: py_def apostrophe_def)
    next
      assume "c \<in> set (tag_clean s) \<and> \<not> isspace c"
      then show ?thesis
        using \<open>\<And>c. c \<in> set (tag_clean s) \<Longrightarrow> _\<close> by blast
    qed
  qed
  then show ?thesis
    by (simp add: list_all_iff)
qed

lemma sanitize_content:
  "filter (\<lambda>c. c \<notin> set (py ''_'')) (sanitize_collection_name s)
     = filter (\<lambda>c. c \<notin> set (py '',:/-_'') \<and> c \<notin> set apostrophe \<and> \<not> isspace c) s"
proof -
  have "filter (\<lambda>c. c \<noteq> 95) (sanitize_collection_name s)
          = filter (\<lambda>c. c \<noteq> 95) (filter (\<lambda>c. \<not> isspace c) (tag_clean s))"
    by (simp only: sanitize_collection_name_clean filter_join concat_split_ws)
  also have "\<dots> = filter (\<lambda>c. c \<notin> set (py '',:/-_'') \<and> c \<notin> set apostrophe \<and> \<not> isspace c) s"
    by (induction s) (auto simp: tag_clean_def py_def apostrophe_def isspace_def)
  finally show ?thesis by (simp add: py_def)
qed

lemma sanitize_no_space:
  assumes "list_all (\<lambda>c. \<not> isspace c) s"
  shows "sanitize_collection_name s = tag_clean s"
proof (cases "tag_clean s = []")
  case True
  then show ?thesis by (simp add: sanitize_collection_name_clean split_ws_Nil)
next
  case False
  have "list_all (\<lambda>c. \<not> isspace c) (tag_clean s)"
    using assms by (induction s) (auto simp: tag_clean_def isspace_def)
  then have "split_ws (tag_clean s @ []) = tag_clean s # split_ws []"
    using False by (intro split_ws_one_word) auto
  then show ?thesis by (simp add: sanitize_collection_name_clean split_ws_Nil)
qed

lemma sanitize_gap:
  assumes ws: "ws \<noteq> []" "list_all isspace ws"
    and a: "sanitize_collection_name a \<noteq> []" and b: "sanitize_collection_name b \<noteq> []"
  shows "sanitize_collection_name (a @ ws @ b)
           = sanitize_collection_name a @ py ''_'' @ sanitize_collection_name b"
proof -
  from a have A: "split_ws (tag_clean a) \<noteq> []"
    by (auto simp: sanitize_collection_name_clean)
  from b have B: "split_ws (tag_clean b) \<noteq> []"
    by (auto simp: sanitize_collection_name_clean)
  have "split_ws (tag_clean (a @ ws @ b)) = split_ws (tag_clean a) @ split_ws (tag_clean b)"
    using split_ws_append[OF ws] by (simp add: tag_clean_append tag_clean_spaces ws)
  then show ?thesis
    using join_append[OF A B, of "[95]"] by (simp add: sanitize_collection_name_clean py_def)
qed

lemma sanitize_ends:
  assumes "list_all isspace ws"
  shows "sanitize_collection_name (ws @ s) = sanitize_collection_name s"
    and "sanitize_collection_name (s @ ws) = sanitize_collection_name s"
  using assms
  by (simp_all add: sanitize_collection_name_clean tag_clean_append tag_clean_spaces
      split_ws_spaces split_ws_trailing)

lemma sanitize_example:
  "sanitize_collection_name (py ''Commander's Precons, Vol. 2'') = py ''Commanders_Precons_Vol._2''"
  by (simp add: sanitize_collection_name_clean tag_clean_def py_def split_ws_space
      split_ws_word split_ws_Nil isspace_def)

text \<open>
  C9, as amended. \<open>sanitize_collection_name\<close> leaves no comma, colon, slash, hyphen,
  apostrophe or white space in its result; apart from underscores, the result is the input
  without those characters; a label without white space has its commas, colons and
  apostrophes removed and each slash and hyphen turned into an underscore; a run of white
  space between two parts that leave something becomes one underscore; white space at
  either end is dropped. Every other character is kept, the full stop too: the label
  \<open>Commander's Precons, Vol. 2\<close> becomes \<open>Commanders_Precons_Vol._2\<close>.
\<close>

theorem sanitize_collection_name_keeps_period:
  "list_all (\<lambda>c. c \<notin> set (py '',:/-'') \<and> c \<notin> set apostrophe \<and> \<not> isspace c)
     (sanitize_collection_name s) \<and>
   filter (\<lambda>c. c \<notin> set (py ''_'')) (sanitize_collection_name s)
     = filter (\<lambda>c. c \<notin> set (py '',:/-_'') \<and> c \<notin> set apostrophe \<and> \<not> isspace c) s \<and>
   (list_all (\<lambda>c. \<not> isspace c) s \<longrightarrow>
      sanitize_collection_name s
        = map (\<lambda>c. if c \<in> set (py ''/-'') then hd (py ''_'') else c)
            (filter (\<lambda>c. c \<notin> set (py '',:'') \<and> c \<notin> set apostrophe) s)) \<and>
   (ws \<noteq> [] \<and> list_all isspace ws \<and> sanitize_collection_name a \<noteq> []
      \<and> sanitize_collection_name b \<noteq> [] \<longrightarrow>
      sanitize_collection_name (a @ ws @ b)
        = sanitize_collection_name a @ py ''_'' @ sanitize_collection_name b) \<and>
   (list_all isspace ws \<longrightarrow>
      sanitize_collection_name (ws @ s) = sanitize_collection_name s \<and>
      sanitize_collection_name (s @ ws) = sanitize_collection_name s) \<and>
   sanitize_collection_name (py ''Commander's Precons, Vol. 2'') = py ''Commanders_Precons_Vol._2''"
proof -
  have "tag_clean s = map (\<lambda>c. if c \<in> set (py ''/-'') then hd (py ''_'') else c)
            (filter (\<lambda>c. c \<notin> set (py '',:'') \<and> c \<notin> set apostrophe) s)"
    by (induction s) (auto simp: tag_clean_def py_def apostrophe_def)
  then show ?thesis
    using sanitize_chars[of s] sanitize_content[of s] sanitize_no_space[of s]
      sanitize_gap[of ws a b] sanitize_ends[of ws s] sanitize_example
    by presburger
qed

theorem sanitize_collection_name_keeps_period_witness:
  "list_all (\<lambda>c. \<not> isspace c) (py ''Sol/Ring-Set:1'') \<and>
   sanitize_collection_name (py ''Sol/Ring-Set:1'') = py ''Sol_Ring_Set1'' \<and>
   list_all isspace (py ''  '') \<and>
   sanitize_collection_name (py ''Vol.  2'') = py ''Vol._2'' \<and>
   sanitize_collection_name (py ''  Sol/Ring-Set:1  '') = py ''Sol_Ring_Set1''"
proof -
  have 1: "list_all (\<lambda>c. \<not> isspace c) (py ''Sol/Ring-Set:1'')"
    by (simp add: py_def isspace_def)
  have 2: "list_all isspace (py ''  '')" "py ''  '' \<noteq> []"
    by (simp_all add: py_def isspace_def)
  have 3: "sanitize_collection_name (py ''Vol.'') = py ''Vol.''" "sanitize_collection_name (py ''2'') = py ''2''"
    by (simp_all add: sanitize_collection_name_clean tag_clean_def py_def split_ws_space
      split_ws_word split_ws_Nil isspace_def)
  have 4: "py ''Vol.'' @ py ''  '' @ py ''2'' = py ''Vol.  2''"
     "py ''  '' @ py ''Sol/Ring-Set:1'' = py ''  Sol/Ring-Set:1''"
     "py ''  Sol/Ring-Set:1'' @ py ''  '' = py ''  Sol/Ring-Set:1  ''"
    by (simp_all add: py_def)
  have 5: "py ''Vol.'' \<noteq> []" "py ''2'' \<noteq> []" by (simp_all add: py_def)
  note t1 = sanitize_collection_name_keeps_period[of "py ''Sol/Ring-Set:1''" "py ''  ''" "py ''Vol.''" "py ''2''"]
  note t2 = sanitize_collection_name_keeps_period[of "py ''  Sol/Ring-Set:1''" "py ''  ''" "py ''Vol.''" "py ''2''"]
  have a: "sanitize_collection_name (py ''Sol/Ring-Set:1'') = py ''Sol_Ring_Set1''"
    using t1 1 by (simp add: py_def apostrophe_def)
  have b: "sanitize_collection_name (py ''Vol.  2'') = py ''Vol._2''"
    using t1 2 3 5 by (simp add: 4) (simp add: py_def)
  have c: "sanitize_collection_name (py ''  Sol/Ring-Set:1'') = py ''Sol_Ring_Set1''"
    using t1 2 a by (simp add: 4)
  have d: "sanitize_collection_name (py ''  Sol/Ring-Set:1  '') = py ''Sol_Ring_Set1''"
    using t2 2 c by (simp add: 4)
  from 1 2 a b d show ?thesis by simp
qed

text \<open>
  C9 as stated fails on its own example: the result is not \<open>Commanders_Precons_Vol_2\<close>.
\<close>

theorem sanitize_collection_name_drops_period_counterexample:
  "sanitize_collection_name (py ''Commander's Precons, Vol. 2'') \<noteq> py ''Commanders_Precons_Vol_2''"
  by (simp add: sanitize_collection_name_clean tag_clean_def py_def split_ws_space
      split_ws_word split_ws_Nil isspace_def)

text \<open>
  C10. The sanitizer of collection labels and the sanitizer of commander names are the same
  function.
\<close>

theorem sanitizers_agree: "sanitize_collection_name s = sanitize_commander_name s"
  by (simp add: sanitize_collection_name_def sanitize_commander_name_def)


subsection \<open>Colour legality\<close>






subsection \<open>Inventory\<close>

lemma map_of_dict_set: "map_of (dict_set d k v) k' = (if k' = k then Some v else map_of d k')"
  by (induction d k v rule: dict_set.induct) auto

lemma load_inventory_fold:
  "map_of (foldl (load_inventory_row u) acc rows) k =
     (let matching = filter (\<lambda>r. str_lower u (row_name r) = k) rows
      in if matching = [] then map_of acc k
         else Some (let e = (case map_of acc k of
                               Some e \<Rightarrow> e
                             | None \<Rightarrow> \<lparr> inv_name = row_name (hd matching), inv_quantity = 0,
                                         inv_collections = [] \<rparr>)
                    in e\<lparr> inv_quantity := inv_quantity e + sum_list (map row_quantity matching),
                         inv_collections := inv_collections e @ map row_source matching \<rparr>))"
proof (induction rows arbitrary: acc)
  case Nil
  show ?case by simp
next
  case (Cons r rows)
  let ?acc = "load_inventory_row u acc r"
  have st: "map_of ?acc k =
      (if str_lower u (row_name r) = k
       then Some (let e = (case map_of acc k of
                             Some e \<Rightarrow> e
                           | None \<Rightarrow> \<lparr> inv_name = row_name r, inv_quantity = 0,
                                       inv_collections = [] \<rparr>)
                  in e\<lparr> inv_quantity := inv_quantity e + row_quantity r,
                       inv_collections := inv_collections e @ [row_source r] \<rparr>)
       else map_of acc k)"
    by (simp add: load_inventory_row_def map_of_dict_set Let_def)
  show ?case
    by (simp only: foldl_Cons Cons.IH) (simp add: st Let_def split: option.splits)
qed

text \<open>
  What \<open>load_inventory\<close> of \<open>complete_deck.py\<close> holds under a key: the name of the first row
  of that key, the sum of the quantities, and the source label of every row, in order.
\<close>

lemma load_inventory_lookup:
  "map_of (load_inventory u rows) k =
     (let matching = filter (\<lambda>r. str_lower u (row_name r) = k) rows
      in if matching = [] then None
         else Some \<lparr> inv_name = row_name (hd matching),
                     inv_quantity = sum_list (map row_quantity matching),
                     inv_collections = map row_source matching \<rparr>)"
  by (simp add: load_inventory_def load_inventory_fold Let_def)

lemma load_collections_fold:
  "distinct (case map_of acc k of Some c \<Rightarrow> c | None \<Rightarrow> []) \<Longrightarrow>
   (case map_of (foldl (load_collections_row u) acc rows) k of Some c \<Rightarrow> distinct c
      \<and> set c = set (case map_of acc k of Some c \<Rightarrow> c | None \<Rightarrow> [])
                \<union> row_source ` {r \<in> set rows. str_lower u (row_name r) = k}
    | None \<Rightarrow> map_of acc k = None \<and> {r \<in> set rows. str_lower u (row_name r) = k} = {})"
proof (induction rows arbitrary: acc)
  case Nil
  then show ?case by (simp split: option.splits)
next
  case (Cons r rows)
  let ?acc = "load_collections_row u acc r"
  have d: "distinct (case map_of ?acc k of Some c \<Rightarrow> c | None \<Rightarrow> [])"
    using Cons.prems
    by (auto simp: load_collections_row_def map_of_dict_set Let_def split: option.splits)
  have s: "set (case map_of ?acc k of Some c \<Rightarrow> c | None \<Rightarrow> [])
            = set (case map_of acc k of Some c \<Rightarrow> c | None \<Rightarrow> [])
                \<union> (if str_lower u (row_name r) = k then {row_source r} else {})"
    by (auto simp: load_collections_row_def map_of_dict_set Let_def split: option.splits)
  have n: "map_of ?acc k = None \<longleftrightarrow> map_of acc k = None \<and> str_lower u (row_name r) \<noteq> k"
    by (auto simp: load_collections_row_def map_of_dict_set Let_def split: option.splits)
  show ?case
    using Cons.IH[OF d] s n
    by (auto split: option.splits if_splits)
qed

text \<open>
  \<open>load_inventory\<close> of \<open>add_collection_tags.py\<close> holds each label of a key once.
\<close>

lemma load_inventory_collections_lookup:
  "case map_of (load_inventory_collections u rows) k of
     Some c \<Rightarrow> distinct c \<and> set c = row_source ` {r \<in> set rows. str_lower u (row_name r) = k}
   | None \<Rightarrow> {r \<in> set rows. str_lower u (row_name r) = k} = {}"
  using load_collections_fold[where acc = "[]" and k = k and u = u and rows = rows]
  by (auto simp: load_inventory_collections_def split: option.splits)

lemma lower_sol_ring: "str_lower ascii_env (py ''Sol Ring'') = py ''sol ring''"
  by (simp add: ascii_env_def py_def ascii_lower_def)

lemma load_inventory_spec_example:
  "map_of (load_inventory ascii_env sol_ring_rows) (py ''sol ring'')
     = Some \<lparr> inv_name = py ''Sol Ring'', inv_quantity = 3,
               inv_collections = [py ''SetA'', py ''SetB''] \<rparr>"
  by (simp add: load_inventory_lookup sol_ring_rows_def lower_sol_ring Let_def)

text \<open>
  C8 fails on \<open>load_inventory\<close> of \<open>complete_deck.py\<close>: for two rows of Sol Ring from the
  same collection, the quantity is 3 and the labels are \<open>SetA\<close> twice, where
  \<open>load_inventory\<close> of \<open>add_collection_tags.py\<close> keeps \<open>SetA\<close> once.
\<close>

theorem load_inventory_keeps_duplicate_labels:
  "map_of (load_inventory ascii_env sol_ring_same_set) (py ''sol ring'')
     = Some \<lparr> inv_name = py ''Sol Ring'', inv_quantity = 3,
               inv_collections = [py ''SetA'', py ''SetA''] \<rparr> \<and>
   map_of (load_inventory_collections ascii_env sol_ring_same_set) (py ''sol ring'')
     = Some [py ''SetA'']"
  by (simp add: load_inventory_lookup sol_ring_same_set_def lower_sol_ring Let_def
      load_inventory_collections_def load_collections_row_def map_of_dict_set)


subsection \<open>Schema-free extractors\<close>

lemma for_each_append:
  "for_each f (xs @ ys) st =
     (case for_each f xs st of Inl e \<Rightarrow> Inl e | Inr st' \<Rightarrow> for_each f ys st')"
  by (induction xs arbitrary: st) (auto split: sum.splits)

text \<open>
  A walk is the loop over the dicts of the payload, in their order, that runs the visit of
  each and stops at the first exception.
\<close>

lemma walk_for_each:
  "walk visit t st = for_each visit (dict_nodes t) st"
  "walk_values visit d st = for_each visit (dict_nodes_values d) st"
  "walk_items visit l st = for_each visit (dict_nodes_items l) st"
  by (induction visit t st and visit d st and visit l st rule: walk_walk_values_walk_items.induct)
     (auto simp: for_each_append split: sum.splits)

lemma for_each_invariant:
  assumes "for_each f xs st = Inr st'" and "P st"
    and "\<And>x s s'. x \<in> set xs \<Longrightarrow> P s \<Longrightarrow> f x s = Inr s' \<Longrightarrow> P s'"
  shows "P st'"
  using assms
proof (induction xs arbitrary: st)
  case Nil
  then show ?case by simp
next
  case (Cons x xs)
  from Cons.prems(1) obtain s1 where 1: "f x st = Inr s1" and 2: "for_each f xs s1 = Inr st'"
    by (auto split: sum.splits)
  have "P s1" using Cons.prems(3)[of x st s1] Cons.prems(2) 1 by simp
  with Cons.IH[OF 2] Cons.prems(3) show ?case by auto
qed






















subsection \<open>Accumulated synergy\<close>

lemma map_fst_dict_set:
  "map fst (dict_set d k v) = (if k \<in> set (map fst d) then map fst d else map fst d @ [k])"
  by (induction d k v rule: dict_set.induct) auto

lemma set_dict_set: "set (dict_set d k v) \<subseteq> insert (k, v) (set d)"
  by (induction d k v rule: dict_set.induct) auto

lemma dict_set_ok:
  "synergy_dict_ok d \<Longrightarrow> se_synergy v > 1 / 10 \<Longrightarrow> synergy_dict_ok (dict_set d k v)"
  using set_dict_set[of d k v]
  by (auto simp: synergy_dict_ok_def map_fst_dict_set list_all_iff)

lemma card_synergy_cardview_ok:
  "synergy_dict_ok s \<Longrightarrow> card_synergy_cardview u cv s = Inr s' \<Longrightarrow> synergy_dict_ok s'"
  by (auto simp: card_synergy_cardview_def MIN_SYNERGY_SCORE_def dict_set_ok
      split: sum.splits option.splits if_splits json.splits)

lemma visit_card_synergy_ok:
  "synergy_dict_ok s \<Longrightarrow> visit_card_synergy u d s = Inr s' \<Longrightarrow> synergy_dict_ok s'"
proof -
  assume ok: "synergy_dict_ok s" and v: "visit_card_synergy u d s = Inr s'"
  show ?thesis
  proof (cases "has_key d (py ''cardviews'')")
    case False
    with ok v show ?thesis by (simp add: visit_card_synergy_def)
  next
    case True
    with v obtain cards where "for_each (card_synergy_cardview u) cards s = Inr s'"
      by (auto simp: visit_card_synergy_def split: sum.splits)
    then show ?thesis
      using ok by (rule for_each_invariant) (rule card_synergy_cardview_ok)
  qed
qed

lemma get_card_synergies_ok:
  "get_card_synergies u seed = Inr synergies \<Longrightarrow> synergy_dict_ok synergies"
proof -
  assume g: "get_card_synergies u seed = Inr synergies"
  have e: "synergy_dict_ok []" by (simp add: synergy_dict_ok_def)
  show ?thesis
  proof (cases "\<exists>data. card_page u (slug u seed) = Response 200 (Some data)")
    case False
    with g have "synergies = []"
      by (auto simp: get_card_synergies_def split: http_result.splits option.splits if_splits)
    with e show ?thesis by simp
  next
    case True
    then obtain data where "card_page u (slug u seed) = Response 200 (Some data)" by blast
    with g have "for_each (visit_card_synergy u) (dict_nodes data) [] = Inr synergies"
      by (auto simp: get_card_synergies_def scan_card_synergy_def walk_for_each split: sum.splits)
    then show ?thesis
      using e by (rule for_each_invariant) (rule visit_card_synergy_ok)
  qed
qed

lemma synergy_total_dict_set:
  "synergy_total (dict_set all k t) k' = (if k' = k then st_score t else synergy_total all k')"
  by (simp add: synergy_total_def map_of_dict_set)

lemma add_synergies_total:
  "distinct (map fst synergies) \<Longrightarrow>
   synergy_total (add_synergies synergies all) k
     = synergy_total all k
       + (case map_of synergies k of Some e \<Rightarrow> se_synergy e | None \<Rightarrow> 0)"
proof (induction synergies arbitrary: all)
  case Nil
  show ?case by simp
next
  case (Cons kv rest)
  obtain sk data where kv: "kv = (sk, data)" by (cases kv)
  from Cons.prems kv have d: "distinct (map fst rest)" and n: "sk \<notin> fst ` set rest" by auto
  from n have m: "map_of rest sk = None" by (simp add: map_of_eq_None_iff)
  show ?case
    unfolding kv
    by (simp add: Cons.IH[OF d] synergy_total_dict_set Let_def m)
       (simp add: synergy_total_def syn_default_def split: option.splits)
qed

lemma accumulate_synergies_total:
  "accumulate_synergies u seeds all = Inr all' \<Longrightarrow>
   synergy_total all' k
     = synergy_total all k + sum_list (map (\<lambda>seed. reported_synergy u seed k) seeds)"
proof (induction seeds arbitrary: all)
  case Nil
  then show ?case by simp
next
  case (Cons seed seeds)
  from Cons.prems obtain synergies where g: "get_card_synergies u seed = Inr synergies"
    and a: "accumulate_synergies u seeds (add_synergies synergies all) = Inr all'"
    by (auto split: sum.splits)
  from get_card_synergies_ok[OF g] have d: "distinct (map fst synergies)"
    by (simp add: synergy_dict_ok_def)
  show ?case
    using Cons.IH[OF a] add_synergies_total[OF d, of all k] g
    by (simp add: reported_synergy_def)
qed

lemma accumulate_synergies_returns:
  "list_all (\<lambda>seed. \<exists>synergies. get_card_synergies u seed = Inr synergies) seeds \<Longrightarrow>
   \<exists>all'. accumulate_synergies u seeds all = Inr all'"
  by (induction seeds arbitrary: all) auto

text \<open>
  C6, as amended. For every partially built deck, the accumulated synergy total of a
  candidate is the sum, over the first 20 cards of the deck taken as seeds, of the synergy
  each seed reports with the candidate; the accumulation returns when the lookup of every
  seed does; and every score a seed reports is above the minimum 0.1.
\<close>

theorem synergy_total_over_first_twenty_seeds:
  "(deck_synergies u cards = Inr all_synergies \<longrightarrow>
      synergy_total all_synergies candidate
        = sum_list (map (\<lambda>seed. reported_synergy u seed candidate)
            (take 20 (map (str_lower u) cards)))) \<and>
   (list_all (\<lambda>seed. \<exists>synergies. get_card_synergies u seed = Inr synergies)
        (take 20 (map (str_lower u) cards)) \<longrightarrow>
      (\<exists>all_synergies. deck_synergies u cards = Inr all_synergies)) \<and>
   (get_card_synergies u seed = Inr synergies \<and> map_of synergies candidate = Some e \<longrightarrow>
      se_synergy e > 1 / 10)"
proof -
  have a: "deck_synergies u cards = Inr all_synergies \<longrightarrow>
      synergy_total all_synergies candidate
        = sum_list (map (\<lambda>seed. reported_synergy u seed candidate)
            (take 20 (map (str_lower u) cards)))"
    using accumulate_synergies_total[of u "take 20 (map (str_lower u) cards)" "[]" all_synergies candidate]
    by (simp add: deck_synergies_def seed_cards_def synergy_total_def)
  have b: "list_all (\<lambda>seed. \<exists>synergies. get_card_synergies u seed = Inr synergies)
        (take 20 (map (str_lower u) cards)) \<longrightarrow>
      (\<exists>all_synergies. deck_synergies u cards = Inr all_synergies)"
    using accumulate_synergies_returns[of u "take 20 (map (str_lower u) cards)" "[]"]
    by (simp add: deck_synergies_def seed_cards_def)
  have c: "se_synergy e > 1 / 10"
    if "get_card_synergies u seed = Inr synergies" "map_of synergies candidate = Some e"
  proof -
    from that(2) have "(candidate, e) \<in> set synergies" by (rule map_of_SomeD)
    with get_card_synergies_ok[OF that(1)] show ?thesis
      by (auto simp: synergy_dict_ok_def list_all_iff)
  qed
  from a b c show ?thesis by blast
qed

lemma lower_island: "str_lower sol_ring_env (py ''Island'') = py ''island''"
  by (simp add: sol_ring_env_def ascii_env_def py_def ascii_lower_def)

lemma lower_sol_ring_env: "str_lower sol_ring_env (py ''Sol Ring'') = py ''sol ring''"
  by (simp add: sol_ring_env_def ascii_env_def py_def ascii_lower_def)

lemma synergies_island: "get_card_synergies sol_ring_env (py ''island'') = Inr []"
  by (simp add: get_card_synergies_def sol_ring_env_def slug_def ascii_env_def py_def
      apostrophe_def ascii_lower_def alnum_def strip_def)

lemma synergies_sol_ring:
  "get_card_synergies sol_ring_env (py ''sol ring'')
     = Inr [(py ''mana vault'', \<lparr> se_synergy = 5 / 10, se_scryfall = JStr [] \<rparr>)]"
  by (simp add: get_card_synergies_def sol_ring_env_def slug_def ascii_env_def py_def
      apostrophe_def ascii_lower_def alnum_def strip_def sol_ring_page_def
      find_scryfall_in_data_def dict_get_def has_key_def scan_card_synergy_def
      visit_card_synergy_def card_synergy_cardview_def MIN_SYNERGY_SCORE_def)

lemma accumulate_islands:
  "accumulate_synergies sol_ring_env (replicate n (py ''island'')) all = Inr all"
  by (induction n) (simp_all add: synergies_island)

lemma seeds_islands:
  "take 20 (map (str_lower sol_ring_env) islands_then_sol_ring) = replicate 20 (py ''island'')"
  by (simp add: islands_then_sol_ring_def lower_island)

theorem synergy_total_over_first_twenty_seeds_witness:
  "list_all (\<lambda>seed. \<exists>synergies. get_card_synergies sol_ring_env seed = Inr synergies)
     (take 20 (map (str_lower sol_ring_env) [py ''Sol Ring'', py ''Island''])) \<and>
   (\<exists>all_synergies.
      deck_synergies sol_ring_env [py ''Sol Ring'', py ''Island''] = Inr all_synergies \<and>
      synergy_total all_synergies (py ''mana vault'') = 5 / 10) \<and>
   get_card_synergies sol_ring_env (py ''sol ring'')
     = Inr [(py ''mana vault'', \<lparr> se_synergy = 5 / 10, se_scryfall = JStr [] \<rparr>)] \<and>
   (1 / 10 :: rat) < 5 / 10"
proof -
  let ?cards = "[py ''Sol Ring'', py ''Island'']"
  have s: "take 20 (map (str_lower sol_ring_env) ?cards) = [py ''sol ring'', py ''island'']"
    by (simp add: lower_island lower_sol_ring_env)
  have l: "list_all (\<lambda>seed. \<exists>synergies. get_card_synergies sol_ring_env seed = Inr synergies)
     (take 20 (map (str_lower sol_ring_env) ?cards))"
    by (simp only: s) (simp add: synergies_island synergies_sol_ring)
  have r: "sum_list (map (\<lambda>seed. reported_synergy sol_ring_env seed (py ''mana vault''))
             (take 20 (map (str_lower sol_ring_env) ?cards))) = 5 / 10"
    by (simp only: s) (simp add: reported_synergy_def synergies_island synergies_sol_ring)
  note t = synergy_total_over_first_twenty_seeds[of sol_ring_env ?cards _ "py ''mana vault''"
      "py ''sol ring''" "[(py ''mana vault'', \<lparr> se_synergy = 5 / 10, se_scryfall = JStr [] \<rparr>)]"
      "\<lparr> se_synergy = 5 / 10, se_scryfall = JStr [] \<rparr>"]
  from t l obtain all_synergies where d: "deck_synergies sol_ring_env ?cards = Inr all_synergies"
    by blast
  with synergy_total_over_first_twenty_seeds[of sol_ring_env ?cards all_synergies "py ''mana vault''"] r
  have "synergy_total all_synergies (py ''mana vault'') = 5 / 10" by simp
  with d l show ?thesis by (auto simp: synergies_sol_ring)
qed

text \<open>
  C6 as stated fails: in a deck of 20 Islands followed by Sol Ring, Sol Ring reports
  synergy 0.5 with Mana Vault, and the total of Mana Vault is 0, not the sum over all the
  cards of the deck.
\<close>

theorem synergy_total_skips_seed_21_counterexample:
  "deck_synergies sol_ring_env islands_then_sol_ring = Inr [] \<and>
   synergy_total [] (py ''mana vault'') = 0 \<and>
   sum_list (map (\<lambda>seed. reported_synergy sol_ring_env seed (py ''mana vault''))
     (map (str_lower sol_ring_env) islands_then_sol_ring)) = 5 / 10 \<and>
   length islands_then_sol_ring = 21"
proof -
  have a: "deck_synergies sol_ring_env islands_then_sol_ring = Inr []"
    by (simp only: deck_synergies_def seed_cards_def seeds_islands accumulate_islands)
  have b: "sum_list (map (\<lambda>seed. reported_synergy sol_ring_env seed (py ''mana vault''))
     (map (str_lower sol_ring_env) islands_then_sol_ring)) = 5 / 10"
    by (simp add: islands_then_sol_ring_def lower_island lower_sol_ring_env reported_synergy_def
        synergies_island synergies_sol_ring sum_list_replicate)
  show ?thesis
    using a b by (simp add: synergy_total_def islands_then_sol_ring_def)
qed


subsection \<open>Scores of the suggestions\<close>




























subsection \<open>Ordering of the merged card list\<close>

lemma get_sort_priority_tier:
  "get_sort_priority r = (merge_tier r, if merge_tier r = 3 then 0 else - percent_or_zero r)"
  by (simp add: get_sort_priority_def merge_tier_def percent_or_zero_def Let_def)

lemma sort_rows_sorted:
  "i < j \<Longrightarrow> j < length (sort_rows rows) \<Longrightarrow>
   row_key rows (sort_rows rows ! i) \<le> row_key rows (sort_rows rows ! j)"
proof -
  assume ij: "i < j" "j < length (sort_rows rows)"
  have "sorted (map (row_key rows) (sort_rows rows))"
    by (simp add: sort_rows_def)
  then have "map (row_key rows) (sort_rows rows) ! i \<le> map (row_key rows) (sort_rows rows) ! j"
    using ij by (intro sorted_nth_mono) simp_all
  then show ?thesis using ij by simp
qed

lemma row_key_le:
  assumes "row_key rows a \<le> row_key rows b"
  shows "commander_card_count rows (fr_commander a) \<ge> commander_card_count rows (fr_commander b)"
    and "commander_card_count rows (fr_commander a) = commander_card_count rows (fr_commander b)
           \<Longrightarrow> fr_commander a \<le> fr_commander b"
    and "fr_commander a = fr_commander b \<Longrightarrow> merge_tier a \<le> merge_tier b"
    and "fr_commander a = fr_commander b \<Longrightarrow> merge_tier a = merge_tier b
           \<Longrightarrow> merge_tier a = 3 \<longrightarrow> fr_percent a = None \<and> fr_percent b = None
           \<Longrightarrow> percent_or_zero a \<ge> percent_or_zero b"
  using assms
  by (auto simp: row_key_def get_sort_priority_tier less_eq_prod_def percent_or_zero_def
      split: if_splits)

text \<open>
  The order of the output for any list of rows. Inside tier 3 the second component of the
  key is 0, whatever the percent.
\<close>

lemma sort_rows_order_general:
  "set (sort_rows rows) = set rows \<and> length (sort_rows rows) = length rows \<and>
   (i < j \<and> j < length (sort_rows rows) \<longrightarrow>
      (let a = sort_rows rows ! i; b = sort_rows rows ! j in
         commander_card_count rows (fr_commander a) \<ge> commander_card_count rows (fr_commander b) \<and>
         (commander_card_count rows (fr_commander a) = commander_card_count rows (fr_commander b)
            \<longrightarrow> fr_commander a \<le> fr_commander b) \<and>
         (fr_commander a = fr_commander b \<longrightarrow>
            merge_tier a \<le> merge_tier b \<and>
            (merge_tier a = merge_tier b
               \<and> (merge_tier a = 3 \<longrightarrow> fr_percent a = None \<and> fr_percent b = None)
               \<longrightarrow> percent_or_zero a \<ge> percent_or_zero b) \<and>
            \<not> (fr_source a = py ''average'' \<and> fr_source b = py ''both''))))"
proof -
  have m: "set (sort_rows rows) = set rows \<and> length (sort_rows rows) = length rows"
    by (simp add: sort_rows_def)
  have o: "commander_card_count rows (fr_commander a) \<ge> commander_card_count rows (fr_commander b) \<and>
         (commander_card_count rows (fr_commander a) = commander_card_count rows (fr_commander b)
            \<longrightarrow> fr_commander a \<le> fr_commander b) \<and>
         (fr_commander a = fr_commander b \<longrightarrow>
            merge_tier a \<le> merge_tier b \<and>
            (merge_tier a = merge_tier b
               \<and> (merge_tier a = 3 \<longrightarrow> fr_percent a = None \<and> fr_percent b = None)
               \<longrightarrow> percent_or_zero a \<ge> percent_or_zero b) \<and>
            \<not> (fr_source a = py ''average'' \<and> fr_source b = py ''both''))"
    if "row_key rows a \<le> row_key rows b" for a b
  proof -
    have "\<not> (fr_source a = py ''average'' \<and> fr_source b = py ''both'')"
      if "fr_commander a = fr_commander b"
    proof
      assume s: "fr_source a = py ''average'' \<and> fr_source b = py ''both''"
      then have "merge_tier a = 3" "merge_tier b = 1"
        by (simp_all add: merge_tier_def py_def)
      with row_key_le(3)[OF \<open>row_key rows a \<le> row_key rows b\<close> that] show False by simp
    qed
    with row_key_le[OF that] show ?thesis by blast
  qed
  show ?thesis
    using m o[OF sort_rows_sorted[of i j rows]] by (simp add: Let_def)
qed

lemma mark_first_both_average:
  "\<forall>r\<in>set flat. fr_source r = py ''average'' \<longrightarrow> fr_percent r = None \<Longrightarrow>
   \<forall>r\<in>set (mark_first_both already flat). fr_source r = py ''average'' \<longrightarrow> fr_percent r = None"
  by (induction flat) (auto simp: py_def)

lemma merged_rows_average:
  "merged_rows u inv_source_map df rows \<Longrightarrow>
   \<forall>r\<in>set rows. fr_source r = py ''average'' \<longrightarrow> fr_percent r = None"
proof (induction rule: merged_rows.induct)
  case edhrec
  show ?case by (auto simp: edhrec_rows_def py_def)
next
  case (average flat commander crd scry collections)
  then show ?case
    using mark_first_both_average[of flat]
    by (auto simp: add_average_card_def Let_def)
qed

lemma merge_tier_average: "merge_tier r = 3 \<Longrightarrow> fr_source r = py ''average''"
  by (simp add: merge_tier_def split: if_splits)

text \<open>
  C2. The sorted card list has the rows of the merged list, and of any two of its rows the
  earlier one has the commander with at least as many rows; with as many rows, the
  commander's name that is not greater; with the same commander, the tier that is not
  greater (1 for \<open>both\<close>, 2 for \<open>edhrec\<close> above 0.20, 3 for \<open>average\<close>, 4 for the rest) and,
  in the same tier, the percent that is not smaller. In particular no \<open>average\<close> row of a
  commander comes before a \<open>both\<close> row of the same commander, whatever the percents.
\<close>

theorem sort_rows_order:
  "merged_rows u inv_source_map df rows \<longrightarrow>
   set (sort_rows rows) = set rows \<and> length (sort_rows rows) = length rows \<and>
   (i < j \<and> j < length (sort_rows rows) \<longrightarrow>
      (let a = sort_rows rows ! i; b = sort_rows rows ! j in
         commander_card_count rows (fr_commander a) \<ge> commander_card_count rows (fr_commander b) \<and>
         (commander_card_count rows (fr_commander a) = commander_card_count rows (fr_commander b)
            \<longrightarrow> fr_commander a \<le> fr_commander b) \<and>
         (fr_commander a = fr_commander b \<longrightarrow>
            merge_tier a \<le> merge_tier b \<and>
            (merge_tier a = merge_tier b \<longrightarrow> percent_or_zero a \<ge> percent_or_zero b) \<and>
            \<not> (fr_source a = py ''average'' \<and> fr_source b = py ''both''))))"
proof
  assume m: "merged_rows u inv_source_map df rows"
  have s: "set (sort_rows rows) = set rows"
    by (simp add: sort_rows_def)
  have n: "fr_percent (sort_rows rows ! k) = None"
    if "k < length (sort_rows rows)" "merge_tier (sort_rows rows ! k) = 3" for k
  proof -
    from that(1) have "sort_rows rows ! k \<in> set rows"
      using s nth_mem by blast
    with merged_rows_average[OF m] merge_tier_average[OF that(2)] show ?thesis by blast
  qed
  show "set (sort_rows rows) = set rows \<and> length (sort_rows rows) = length rows \<and>
   (i < j \<and> j < length (sort_rows rows) \<longrightarrow>
      (let a = sort_rows rows ! i; b = sort_rows rows ! j in
         commander_card_count rows (fr_commander a) \<ge> commander_card_count rows (fr_commander b) \<and>
         (commander_card_count rows (fr_commander a) = commander_card_count rows (fr_commander b)
            \<longrightarrow> fr_commander a \<le> fr_commander b) \<and>
         (fr_commander a = fr_commander b \<longrightarrow>
            merge_tier a \<le> merge_tier b \<and>
            (merge_tier a = merge_tier b \<longrightarrow> percent_or_zero a \<ge> percent_or_zero b) \<and>
            \<not> (fr_source a = py ''average'' \<and> fr_source b = py ''both''))))"
    using sort_rows_order_general[of rows i j] n[of i] n[of j]
    by (simp add: Let_def)
qed

lemma example_merged:
  "merged_rows ascii_env example_sources example_commanders
     [atraxa_both_row, muldrotha_row, atraxa_average_row]"
proof -
  let ?m = "merged_rows ascii_env example_sources example_commanders"
  let ?e = "\<lparr> fr_commander = py ''Atraxa'', fr_card = py ''Mana Crypt'',
              fr_percent = Some (25 / 100), fr_scryfall = JNull, fr_source = py ''edhrec'',
              fr_collections = py ''SetB'' \<rparr>"
  have l: "str_lower ascii_env (py ''Mana Crypt'') = py ''mana crypt''"
    "str_lower ascii_env (py ''Sol Ring'') = py ''sol ring''"
    by (simp_all add: ascii_env_def py_def ascii_lower_def)
  have k: "py ''mana crypt'' \<noteq> py ''sol ring''" "py ''Atraxa'' \<noteq> py ''Muldrotha''"
    "py ''Muldrotha'' \<noteq> py ''Atraxa''"
    by (simp_all add: py_def)
  have 0: "edhrec_rows ascii_env example_sources example_commanders = [?e, muldrotha_row]"
    by (simp add: edhrec_rows_def example_commanders_def example_sources_def l k muldrotha_row_def)
  have 1: "add_average_card ascii_env [?e, muldrotha_row] (py ''Atraxa'') (py ''Mana Crypt'') JNull
             (py ''SetB'') = [atraxa_both_row, muldrotha_row]"
    by (simp add: add_average_card_def Let_def l atraxa_both_row_def)
  have 2: "add_average_card ascii_env [atraxa_both_row, muldrotha_row] (py ''Atraxa'')
             (py ''Sol Ring'') JNull (py ''SetA'')
           = [atraxa_both_row, muldrotha_row, atraxa_average_row]"
    by (simp add: add_average_card_def Let_def l k atraxa_both_row_def muldrotha_row_def
        atraxa_average_row_def)
  have "?m [?e, muldrotha_row]"
    using merged_rows.edhrec[of ascii_env example_sources example_commanders] by (simp only: 0)
  then have "?m [atraxa_both_row, muldrotha_row]"
    using merged_rows.average[of ascii_env example_sources example_commanders "[?e, muldrotha_row]"
        "py ''Atraxa''" "py ''Mana Crypt''" JNull "py ''SetB''"]
    by (simp only: 1)
  then show ?thesis
    using merged_rows.average[of ascii_env example_sources example_commanders
        "[atraxa_both_row, muldrotha_row]" "py ''Atraxa''" "py ''Sol Ring''" JNull "py ''SetA''"]
    by (simp only: 2)
qed

lemma example_sorted:
  "sort_rows [atraxa_both_row, muldrotha_row, atraxa_average_row]
     = [atraxa_both_row, atraxa_average_row, muldrotha_row]"
proof -
  let ?rows = "[atraxa_both_row, muldrotha_row, atraxa_average_row]"
  have k1: "row_key ?rows atraxa_average_row = (- 2, py ''Atraxa'', 3, 0)"
    by (simp add: row_key_def commander_card_count_def get_sort_priority_def
        atraxa_average_row_def muldrotha_row_def atraxa_both_row_def py_def)
  have k2: "row_key ?rows muldrotha_row = (- 1, py ''Muldrotha'', 2, - (50 / 100))"
    by (simp add: row_key_def commander_card_count_def get_sort_priority_def
        atraxa_average_row_def muldrotha_row_def atraxa_both_row_def py_def)
  have k3: "row_key ?rows atraxa_both_row = (- 2, py ''Atraxa'', 1, - (25 / 100))"
    by (simp add: row_key_def commander_card_count_def get_sort_priority_def
        atraxa_average_row_def muldrotha_row_def atraxa_both_row_def py_def)
  show ?thesis
    by (simp add: sort_rows_def k1 k2 k3 less_eq_prod_def)
qed

theorem sort_rows_order_witness:
  "merged_rows ascii_env example_sources example_commanders
     [atraxa_both_row, muldrotha_row, atraxa_average_row] \<and>
   sort_rows [atraxa_both_row, muldrotha_row, atraxa_average_row]
     = [atraxa_both_row, atraxa_average_row, muldrotha_row] \<and>
   (0 :: nat) < 1 \<and> 1 < length (sort_rows [atraxa_both_row, muldrotha_row, atraxa_average_row]) \<and>
   fr_commander atraxa_both_row = fr_commander atraxa_average_row \<and>
   merge_tier atraxa_both_row \<le> merge_tier atraxa_average_row \<and>
   fr_source atraxa_both_row = py ''both'' \<and> fr_source atraxa_average_row = py ''average'' \<and>
   percent_or_zero atraxa_average_row \<le> percent_or_zero atraxa_both_row"
proof -
  let ?rows = "[atraxa_both_row, muldrotha_row, atraxa_average_row]"
  have c: "fr_commander atraxa_both_row = fr_commander atraxa_average_row"
    by (simp add: atraxa_both_row_def atraxa_average_row_def)
  have l: "(0 :: nat) < 1 \<and> 1 < length (sort_rows ?rows)"
    by (simp add: example_sorted)
  from sort_rows_order[of ascii_env example_sources example_commanders ?rows 0 1] example_merged
  have "merge_tier atraxa_both_row \<le> merge_tier atraxa_average_row"
    unfolding example_sorted by (simp add: Let_def c)
  moreover have "fr_source atraxa_both_row = py ''both''"
    "fr_source atraxa_average_row = py ''average''"
    "percent_or_zero atraxa_average_row \<le> percent_or_zero atraxa_both_row"
    by (simp_all add: atraxa_both_row_def atraxa_average_row_def percent_or_zero_def)
  ultimately show ?thesis
    using example_sorted example_merged c l by simp
qed


end
